theory Spec2Isabelle
  imports Main "HOL-Library.Sublist" "HOL-Library.Char_ord" "HOL-Library.List_Lexorder"
begin

text \<open>
  A model of \<open>server.js\<close>: the event type resolver, the exact slot verifier, the
  availability aggregator, the window normalization of \<open>GET /api/slots\<close> and the booking
  route \<open>POST /api/book\<close>. What lies outside the file is a parameter: the roster
  (\<open>hosts.json\<close>), the process environment, the provider's answers, the clock, and the
  engine's \<open>Date.parse\<close> and \<open>localeCompare\<close>. A thrown error or a rejected promise is
  an \<open>Inl\<close> value; the event type cache and the requests sent are threaded as state.
\<close>

section \<open>JavaScript dates\<close>

text \<open>
  A JavaScript \<open>Date\<close> holds a time value: milliseconds since the epoch, or NaN for an
  Invalid Date. The model writes it as \<open>int option\<close>, with \<open>None\<close> for NaN. The Date
  constructor clips a time value beyond 8.64e15 ms to NaN.
\<close>

type_synonym date = "int option"

definition max_time :: int where
  "max_time = 8640000000000000"

definition TimeClip :: "int \<Rightarrow> date" where
  "TimeClip t = (if \<bar>t\<bar> \<le> max_time then Some t else None)"

text \<open>
  \<open>new Date(v)\<close> for a value that is a string or \<open>undefined\<close> (\<open>None\<close>). How a string
  is parsed is the engine's \<open>Date.parse\<close>, a parameter of the model.
\<close>

definition new_Date :: "(string \<Rightarrow> int option) \<Rightarrow> string option \<Rightarrow> date" where
  "new_Date parse v =
     (case v of
        None \<Rightarrow> None
      | Some s \<Rightarrow> (case parse s of None \<Rightarrow> None | Some t \<Rightarrow> TimeClip t))"

text \<open>The day number (days since 1970-01-01) as a proleptic Gregorian year, month, day.\<close>

definition civil_from_days :: "int \<Rightarrow> int \<times> int \<times> int" where
  "civil_from_days z =
     (let z1 = z + 719468;
          era = z1 div 146097;
          doe = z1 - era * 146097;
          yoe = (doe - doe div 1460 + doe div 36524 - doe div 146096) div 365;
          doy = doe - (365 * yoe + yoe div 4 - yoe div 100);
          mp = (5 * doy + 2) div 153;
          d = doy - (153 * mp + 2) div 5 + 1;
          m = (if mp < 10 then mp + 3 else mp - 9);
          y = yoe + era * 400 + (if m \<le> 2 then 1 else 0)
      in (y, m, d))"

definition digit :: "int \<Rightarrow> char" where
  "digit d = ''0123456789'' ! nat (d mod 10)"

definition pad2 :: "int \<Rightarrow> string" where
  "pad2 n = [digit (n div 10), digit n]"

definition pad3 :: "int \<Rightarrow> string" where
  "pad3 n = [digit (n div 100), digit (n div 10), digit n]"

definition pad4 :: "int \<Rightarrow> string" where
  "pad4 n = [digit (n div 1000), digit (n div 100), digit (n div 10), digit n]"

definition pad6 :: "int \<Rightarrow> string" where
  "pad6 n = [digit (n div 100000), digit (n div 10000), digit (n div 1000),
             digit (n div 100), digit (n div 10), digit n]"

definition year_string :: "int \<Rightarrow> string" where
  "year_string y =
     (if 0 \<le> y \<and> y \<le> 9999 then pad4 y
      else (if y < 0 then ''-'' else ''+'') @ pad6 \<bar>y\<bar>)"

text \<open>
  \<open>process.env[name]\<close> is \<open>undefined\<close> or a string; \<open>!token\<close> is true for
  \<open>undefined\<close> and for the empty string.
\<close>

type_synonym token = "string option"

definition falsy :: "string option \<Rightarrow> bool" where
  "falsy v = (v = None \<or> v = Some [])"

section \<open>Requests to the provider and errors\<close>

datatype request =
    GetUsersMe token
  | GetEventTypes token string
  | GetAvailableTimes token string string string string
  | PostEventInvitees token string string string string string
  | PostSchedulingLinks token string string nat

datatype error =
    RangeError string
  | TypeError string
  | MissingPAT string string
  | NoResourceUri string
  | NoEventType string string "string list"
  | CalendlyError request nat string
  | FetchError string
  | JsonError

text \<open>
  \<open>Date.prototype.toISOString\<close>: the canonical UTC rendering
  \<open>YYYY-MM-DDTHH:mm:ss.sssZ\<close> (a signed six-digit year outside 0..9999); it throws a
  RangeError on an Invalid Date.
\<close>

definition toISOString :: "date \<Rightarrow> error + string" where
  "toISOString d =
     (case d of
        None \<Rightarrow> Inl (RangeError ''Invalid time value'')
      | Some t \<Rightarrow>
          (let day = t div 86400000;
               ms = t mod 86400000;
               (y, m, dd) = civil_from_days day
           in Inr (year_string y @ ''-'' @ pad2 m @ ''-'' @ pad2 dd @ ''T''
                   @ pad2 (ms div 3600000) @ '':'' @ pad2 (ms div 60000 mod 60) @ '':''
                   @ pad2 (ms div 1000 mod 60) @ ''.'' @ pad3 (ms mod 1000) @ ''Z'')))"

section \<open>Hosts, provider responses and process state\<close>

record host =
  host_id :: string
  display_name :: string
  pat_env :: string
  event_type_uri :: string
  priority_weight :: int

record event_type =
  scheduling_url :: string
  uri :: string

text \<open>
  One entry of the provider's availability collection. The code reads its \<open>start_time\<close>
  and \<open>end_time\<close>; a field the entry does not have reads as \<open>undefined\<close> (\<open>None\<close>).
\<close>

datatype available_time =
  AvailableTime (av_start_time: "string option") (av_end_time: "string option")

text \<open>
  What \<open>fetch\<close> settles with: it rejects (a network failure), or it gives a response
  with a status, the body as text, and the body parsed as JSON (\<open>None\<close> when the body
  is not JSON, so that \<open>res.json()\<close> rejects). The parsed body is typed per endpoint
  and holds the fields the code reads; a field guarded in the code by \<open>?.\<close> or
  \<open>|| []\<close> is optional.
\<close>

datatype 'a fetched = Rejected string | Response nat string "'a option"

definition ok :: "nat \<Rightarrow> bool" where
  "ok status = (200 \<le> status \<and> status \<le> 299)"

text \<open>
  The runtime the server runs in: the process environment, the provider behind
  \<open>https://api.calendly.com\<close> (one function per endpoint, answering a request the
  same way throughout one call of the server), and the engine's \<open>Date.parse\<close> and
  \<open>String.prototype.localeCompare\<close>.
\<close>

record runtime =
  env :: "string \<Rightarrow> string option"
  users_me :: "token \<Rightarrow> string option fetched"
  event_types :: "token \<Rightarrow> string \<Rightarrow> event_type list option fetched"
  event_type_available_times ::
    "token \<Rightarrow> string \<Rightarrow> string \<Rightarrow> string \<Rightarrow> string \<Rightarrow> available_time list option fetched"
  event_invitees ::
    "token \<Rightarrow> string \<Rightarrow> string \<Rightarrow> string \<Rightarrow> string \<Rightarrow> string \<Rightarrow> string fetched"
  scheduling_links :: "token \<Rightarrow> string \<Rightarrow> string \<Rightarrow> nat \<Rightarrow> string option fetched"
  Date_parse :: "string \<Rightarrow> int option"
  localeCompare :: "string \<Rightarrow> string \<Rightarrow> int"

text \<open>
  The mutable state: \<open>EVENT_TYPE_URI_CACHE\<close> (host id to event type URI) and, for the
  claims about which requests are made, the requests sent to the provider in order.
\<close>

record world =
  cache :: "string \<rightharpoonup> string"
  log :: "request list"

section \<open>The upstream helper and the event type resolver\<close>

text \<open>
  \<open>calendly(token, path, opts)\<close>: the request is sent (logged), a rejected fetch and a
  body that is not JSON throw, a response that is not ok throws an error with the status
  and the body.
\<close>

definition calendly :: "request \<Rightarrow> 'a fetched \<Rightarrow> world \<Rightarrow> (error + 'a) \<times> world" where
  "calendly req res w =
     (let w' = w\<lparr>log := log w @ [req]\<rparr>
      in case res of
           Rejected m \<Rightarrow> (Inl (FetchError m), w')
         | Response status text js \<Rightarrow>
             if \<not> ok status then (Inl (CalendlyError req status text), w')
             else (case js of None \<Rightarrow> (Inl JsonError, w') | Some j \<Rightarrow> (Inr j, w')))"

definition resolveEventTypeApiUriForHost ::
  "runtime \<Rightarrow> host \<Rightarrow> world \<Rightarrow> (error + string) \<times> world" where
  "resolveEventTypeApiUriForHost rt h w =
     (case cache w (host_id h) of
        Some u \<Rightarrow> (Inr u, w)
      | None \<Rightarrow>
          (let token = env rt (pat_env h)
           in if falsy token then (Inl (MissingPAT (host_id h) (pat_env h)), w)
              else
                (case calendly (GetUsersMe token) (users_me rt token) w of
                   (Inl e, w1) \<Rightarrow> (Inl e, w1)
                 | (Inr me, w1) \<Rightarrow>
                     (case me of
                        None \<Rightarrow> (Inl (NoResourceUri (host_id h)), w1)
                      | Some userUri \<Rightarrow>
                          if userUri = [] then (Inl (NoResourceUri (host_id h)), w1)
                          else
                            (case calendly (GetEventTypes token userUri)
                                    (event_types rt token userUri) w1 of
                               (Inl e, w2) \<Rightarrow> (Inl e, w2)
                             | (Inr lst, w2) \<Rightarrow>
                                 (let collection = (case lst of None \<Rightarrow> [] | Some c \<Rightarrow> c)
                                  in case find (\<lambda>et. scheduling_url et = event_type_uri h)
                                            collection of
                                       None \<Rightarrow>
                                         (Inl (NoEventType (event_type_uri h) (host_id h)
                                                (map scheduling_url collection)), w2)
                                     | Some m \<Rightarrow>
                                         (Inr (uri m),
                                          w2\<lparr>cache := (cache w2)(host_id h \<mapsto> uri m)\<rparr>)))))))"

section \<open>The exact slot verifier\<close>

definition toISO :: "runtime \<Rightarrow> string \<Rightarrow> error + string" where
  "toISO rt isoish = toISOString (new_Date (Date_parse rt) (Some isoish))"

text \<open>\<open>getTime()\<close> of an Invalid Date is NaN, and \<open>NaN === NaN\<close> is false.\<close>

definition sameInstant :: "runtime \<Rightarrow> string option \<Rightarrow> string option \<Rightarrow> bool" where
  "sameInstant rt a b =
     (case (new_Date (Date_parse rt) a, new_Date (Date_parse rt) b) of
        (Some x, Some y) \<Rightarrow> x = y
      | _ \<Rightarrow> False)"

text \<open>
  \<open>hostHasExactSlot\<close>: the resolution of the event type and the two \<open>toISO\<close> calls
  stand before the \<open>try\<close>; only the availability query and the scan are inside it.
\<close>

definition hostHasExactSlot ::
  "runtime \<Rightarrow> host \<Rightarrow> string \<Rightarrow> string \<Rightarrow> world \<Rightarrow> (error + bool) \<times> world" where
  "hostHasExactSlot rt h start_time end_time w =
     (let token = env rt (pat_env h)
      in case resolveEventTypeApiUriForHost rt h w of
           (Inl e, w1) \<Rightarrow> (Inl e, w1)
         | (Inr et, w1) \<Rightarrow>
             (case toISO rt start_time of
                Inl e \<Rightarrow> (Inl e, w1)
              | Inr startISO \<Rightarrow>
                  (case toISO rt end_time of
                     Inl e \<Rightarrow> (Inl e, w1)
                   | Inr endISO \<Rightarrow>
                       (case calendly (GetAvailableTimes token et startISO endISO ''UTC'')
                               (event_type_available_times rt token et startISO endISO ''UTC'') w1 of
                          (Inl e, w2) \<Rightarrow> (Inr False, w2)
                        | (Inr j, w2) \<Rightarrow>
                            (Inr (list_ex
                                    (\<lambda>s. sameInstant rt (av_start_time s) (Some startISO)
                                         \<and> sameInstant rt (av_end_time s) (Some endISO))
                                    (case j of None \<Rightarrow> [] | Some c \<Rightarrow> c)), w2)))))"

section \<open>Sorting\<close>

text \<open>
  \<open>Array.prototype.sort(cmp)\<close> is a stable sort (Node 18): with a consistent comparator
  the result is the one ordering of the elements that is sorted under \<open>cmp\<close> and keeps
  elements that compare equal in their original order. Insertion from the right, each
  element placed before the first one it does not come after, computes that ordering.
\<close>

fun insert_by :: "('a \<Rightarrow> 'a \<Rightarrow> int) \<Rightarrow> 'a \<Rightarrow> 'a list \<Rightarrow> 'a list" where
  "insert_by cmp x [] = [x]"
| "insert_by cmp x (y # ys) =
     (if cmp x y \<le> 0 then x # y # ys else y # insert_by cmp x ys)"

definition js_sort :: "('a \<Rightarrow> 'a \<Rightarrow> int) \<Rightarrow> 'a list \<Rightarrow> 'a list" where
  "js_sort cmp xs = foldr (insert_by cmp) xs []"

section \<open>The availability aggregator\<close>

text \<open>\<open>addMinutesISO(iso, minutes)\<close>; \<open>new Date(number)\<close> clips the time value.\<close>

definition addMinutesISO :: "runtime \<Rightarrow> string option \<Rightarrow> int \<Rightarrow> error + string" where
  "addMinutesISO rt isoish minutes =
     toISOString
       (case new_Date (Date_parse rt) isoish of
          None \<Rightarrow> None
        | Some t \<Rightarrow> TimeClip (t + minutes * 60 * 1000))"

text \<open>The object a host's task builds for one entry of the provider's collection.\<close>

datatype host_slot =
  HostSlot (hs_start_time: string) (hs_end_time: string) (hs_host_id: string)
    (hs_host_name: string)

text \<open>
  \<open>(data.collection || []).map(s => ...)\<close>: the first entry whose \<open>addMinutesISO\<close>
  throws ends the map with that error. An entry without \<open>start_time\<close> is
  \<open>new Date(undefined)\<close>, an Invalid Date, so \<open>addMinutesISO\<close> throws there too.
\<close>

fun map_slots :: "runtime \<Rightarrow> host \<Rightarrow> available_time list \<Rightarrow> error + host_slot list" where
  "map_slots rt h [] = Inr []"
| "map_slots rt h (s # ss) =
     (case addMinutesISO rt (av_start_time s) 30 of
        Inl e \<Rightarrow> Inl e
      | Inr en \<Rightarrow>
          (case av_start_time s of
             None \<Rightarrow> Inl (RangeError ''Invalid time value'')
           | Some st \<Rightarrow>
               (case map_slots rt h ss of
                  Inl e \<Rightarrow> Inl e
                | Inr r \<Rightarrow> Inr (HostSlot st en (host_id h) (display_name h) # r))))"

text \<open>
  The task \<open>getUnionSlots\<close> starts for one host (the async callback of \<open>hosts.map\<close>):
  \<open>Inl\<close> is a rejected promise, \<open>Inr\<close> the slots of a fulfilled one.
\<close>

definition host_task ::
  "runtime \<Rightarrow> string \<Rightarrow> string \<Rightarrow> string option \<Rightarrow> host \<Rightarrow> world
     \<Rightarrow> (error + host_slot list) \<times> world" where
  "host_task rt start end timezone h w =
     (let token = env rt (pat_env h)
      in if falsy token then (Inl (MissingPAT (host_id h) (pat_env h)), w)
         else
           (case resolveEventTypeApiUriForHost rt h w of
              (Inl e, w1) \<Rightarrow> (Inl e, w1)
            | (Inr et, w1) \<Rightarrow>
                (let tz = (case timezone of
                             None \<Rightarrow> ''UTC''
                           | Some z \<Rightarrow> if z = [] then ''UTC'' else z)
                 in case calendly (GetAvailableTimes token et start end tz)
                           (event_type_available_times rt token et start end tz) w1 of
                      (Inl e, w2) \<Rightarrow> (Inl e, w2)
                    | (Inr data, w2) \<Rightarrow>
                        (map_slots rt h (case data of None \<Rightarrow> [] | Some c \<Rightarrow> c), w2))))"

record slot =
  start_time :: string
  end_time :: string
  hosts :: "(string \<times> string) list"

definition slot_key :: "host_slot \<Rightarrow> string" where
  "slot_key s = hs_start_time s @ ''__'' @ hs_end_time s"

text \<open>
  The bucket is a JavaScript \<open>Map\<close>: keys in insertion order, setting a key that is
  present keeps its place. \<open>bucket_put\<close> is the body of the inner loop: get the entry of
  the key or a new one, push the host onto its \<open>hosts\<close>, set it.
\<close>

fun bucket_put :: "host_slot \<Rightarrow> (string \<times> slot) list \<Rightarrow> (string \<times> slot) list" where
  "bucket_put s [] =
     [(slot_key s,
       \<lparr>start_time = hs_start_time s, end_time = hs_end_time s,
        hosts = [(hs_host_id s, hs_host_name s)]\<rparr>)]"
| "bucket_put s ((k, e) # b) =
     (if k = slot_key s then (k, e\<lparr>hosts := hosts e @ [(hs_host_id s, hs_host_name s)]\<rparr>) # b
      else (k, e) # bucket_put s b)"

definition merge_results ::
  "(error + host_slot list) list \<Rightarrow> (string \<times> slot) list \<Rightarrow> (string \<times> slot) list" where
  "merge_results results bucket =
     foldl (\<lambda>b r. case r of
                     Inl reason \<Rightarrow> b
                   | Inr slots \<Rightarrow> foldl (\<lambda>b' s. bucket_put s b') b slots)
       bucket results"

text \<open>
  \<open>getUnionSlots\<close>. Every task reads the cache before its first \<open>await\<close>, that is
  while \<open>hosts.map\<close> runs, so each task sees the cache of the call's start; what the
  tasks write to the cache later does not reach the value returned.
  \<open>Promise.allSettled\<close> keeps the outcomes in roster order.
\<close>

definition getUnionSlots ::
  "runtime \<Rightarrow> host list \<Rightarrow> string \<Rightarrow> string \<Rightarrow> string option \<Rightarrow> world \<Rightarrow> slot list" where
  "getUnionSlots rt roster start end timezone w =
     (let results = map (\<lambda>h. fst (host_task rt start end timezone h w)) roster;
          bucket = merge_results results []
      in js_sort (\<lambda>a b. localeCompare rt (start_time a) (start_time b)) (map snd bucket))"

section \<open>The slots route: window normalization\<close>

text \<open>Relational operators on two Dates compare the time values; with NaN they are false.\<close>

definition date_less :: "date \<Rightarrow> date \<Rightarrow> bool" where
  "date_less a b = (case (a, b) of (Some x, Some y) \<Rightarrow> x < y | _ \<Rightarrow> False)"

definition date_le :: "date \<Rightarrow> date \<Rightarrow> bool" where
  "date_le a b = (case (a, b) of (Some x, Some y) \<Rightarrow> x \<le> y | _ \<Rightarrow> False)"

datatype reply_body =
    ErrorText string
  | ErrorOf error
  | FallbackFailed nat string
  | SchedulingFailed nat string
  | Booked string string
  | RedirectTo "string option" string
  | Slots "slot list" string string string

type_synonym reply = "nat \<times> reply_body"

text \<open>
  The parse and clamp part of \<open>GET /api/slots\<close>; \<open>now\<close> is the time value of
  \<open>new Date()\<close>. \<open>Inl\<close> is the reply the handler returns at once, \<open>Inr\<close> the window
  \<open>(startISO, endISO)\<close> passed on.
\<close>

definition clamp_window ::
  "runtime \<Rightarrow> int \<Rightarrow> string option \<Rightarrow> string option \<Rightarrow> reply + string \<times> string" where
  "clamp_window rt now start end =
     (let minStart = TimeClip (now + 60000);
          startDate = new_Date (Date_parse rt) start;
          endDate = new_Date (Date_parse rt) end
      in if startDate = None \<or> endDate = None
         then Inl (400, ErrorText ''Invalid start or end (must be ISO 8601)'')
         else
           (let clampedStart = (if date_less startDate minStart then minStart else startDate);
                maxEnd = (case clampedStart of
                            None \<Rightarrow> None
                          | Some t \<Rightarrow> TimeClip (t + 7 * 24 * 60 * 60 * 1000));
                clampedEnd = (if date_less maxEnd endDate then maxEnd else endDate)
            in if date_le clampedEnd clampedStart
               then Inl (400, ErrorText ''End must be after start and within 7 days'')
               else
                 (case toISOString clampedStart of
                    Inl e \<Rightarrow> Inl (500, ErrorOf e)
                  | Inr startISO \<Rightarrow>
                      (case toISOString clampedEnd of
                         Inl e \<Rightarrow> Inl (500, ErrorOf e)
                       | Inr endISO \<Rightarrow> Inr (startISO, endISO)))))"

text \<open>\<open>toLowerCase\<close>, on ASCII letters.\<close>

definition toLowerCase :: "string \<Rightarrow> string" where
  "toLowerCase s =
     map (\<lambda>c. if CHR ''A'' \<le> c \<and> c \<le> CHR ''Z'' then char_of (of_char c + (32::nat)) else c) s"

definition api_slots ::
  "runtime \<Rightarrow> host list \<Rightarrow> int \<Rightarrow> string option \<Rightarrow> string option \<Rightarrow> string option \<Rightarrow> world
     \<Rightarrow> reply" where
  "api_slots rt roster now start end timezone w =
     (let tz = (case timezone of
                  None \<Rightarrow> ''Asia/Kolkata''
                | Some z \<Rightarrow>
                    if z = [] \<or> toLowerCase z = ''asia/calcutta'' then ''Asia/Kolkata'' else z)
      in case clamp_window rt now start end of
           Inl r \<Rightarrow> r
         | Inr (startISO, endISO) \<Rightarrow>
             (200, Slots (getUnionSlots rt roster startISO endISO (Some tz) w) startISO endISO tz))"

section \<open>The booking route\<close>

text \<open>
  The loop that collects the eligible hosts, in roster order; an eligible host is kept
  with its event type URI (\<open>{ ...h, et }\<close>). An error thrown by \<open>hostHasExactSlot\<close> or
  by the resolver ends the loop.
\<close>

fun eligible_hosts ::
  "runtime \<Rightarrow> host list \<Rightarrow> string \<Rightarrow> string \<Rightarrow> world \<Rightarrow> (error + (host \<times> string) list) \<times> world" where
  "eligible_hosts rt [] startISO endISO w = (Inr [], w)"
| "eligible_hosts rt (h # hs) startISO endISO w =
     (case hostHasExactSlot rt h startISO endISO w of
        (Inl e, w1) \<Rightarrow> (Inl e, w1)
      | (Inr has, w1) \<Rightarrow>
          if has then
            (case resolveEventTypeApiUriForHost rt h w1 of
               (Inl e, w2) \<Rightarrow> (Inl e, w2)
             | (Inr et, w2) \<Rightarrow>
                 (case eligible_hosts rt hs startISO endISO w2 of
                    (Inl e, w3) \<Rightarrow> (Inl e, w3)
                  | (Inr rest, w3) \<Rightarrow> (Inr ((h, et) # rest), w3)))
          else eligible_hosts rt hs startISO endISO w1)"

text \<open>\<open>eligible.sort((a, b) => b.priority_weight - a.priority_weight)\<close>.\<close>

definition by_priority :: "host \<times> string \<Rightarrow> host \<times> string \<Rightarrow> int" where
  "by_priority a b = priority_weight (fst b) - priority_weight (fst a)"

definition designated :: "nat \<Rightarrow> bool" where
  "designated status = (status \<in> set [403, 404, 422])"

text \<open>
  The reservation for the chosen host: the direct booking request and, on a designated
  status, the request for a single-use scheduling link. A rejected fetch and a body that
  is not JSON throw, which the handler's \<open>catch\<close> answers with 500.
\<close>

definition reserve ::
  "runtime \<Rightarrow> host \<times> string \<Rightarrow> string \<Rightarrow> string \<Rightarrow> string \<Rightarrow> string \<Rightarrow> world \<Rightarrow> reply \<times> world" where
  "reserve rt chosen startISO endISO name email w =
     (let token = env rt (pat_env (fst chosen));
          et = snd chosen;
          w1 = w\<lparr>log := log w @ [PostEventInvitees token et startISO endISO name email]\<rparr>
      in case event_invitees rt token et startISO endISO name email of
           Rejected m \<Rightarrow> ((500, ErrorOf (FetchError m)), w1)
         | Response status text js \<Rightarrow>
             if ok status then
               (case js of
                  None \<Rightarrow> ((500, ErrorOf JsonError), w1)
                | Some booking \<Rightarrow> ((200, Booked booking (display_name (fst chosen))), w1))
             else if designated status then
               (let w2 = w1\<lparr>log := log w1 @ [PostSchedulingLinks token et ''EventType'' 1]\<rparr>
                in case scheduling_links rt token et ''EventType'' 1 of
                     Rejected m \<Rightarrow> ((500, ErrorOf (FetchError m)), w2)
                   | Response lstatus ltext ljs \<Rightarrow>
                       if \<not> ok lstatus then ((502, FallbackFailed lstatus ltext), w2)
                       else
                         (case ljs of
                            None \<Rightarrow> ((500, ErrorOf JsonError), w2)
                          | Some booking_url \<Rightarrow>
                              ((200, RedirectTo booking_url (display_name (fst chosen))), w2)))
             else ((502, SchedulingFailed status text), w1))"

text \<open>The body of \<open>POST /api/book\<close>: a field that is absent is \<open>None\<close>.\<close>

record book_body =
  body_start_time :: "string option"
  body_end_time :: "string option"
  invitee_name :: "string option"
  invitee_email :: "string option"

definition book :: "runtime \<Rightarrow> host list \<Rightarrow> book_body \<Rightarrow> world \<Rightarrow> reply \<times> world" where
  "book rt roster body w =
     (case (body_start_time body, body_end_time body, invitee_email body, invitee_name body) of
        (Some raw_start, Some raw_end, Some email, Some name) \<Rightarrow>
          if raw_start = [] \<or> raw_end = [] \<or> email = [] \<or> name = []
          then ((400, ErrorText ''start_time, end_time, invitee{name,email} are required''), w)
          else
            (case toISO rt raw_start of
               Inl e \<Rightarrow> ((500, ErrorOf e), w)
             | Inr startISO \<Rightarrow>
                 (case toISO rt raw_end of
                    Inl e \<Rightarrow> ((500, ErrorOf e), w)
                  | Inr endISO \<Rightarrow>
                      (case eligible_hosts rt roster startISO endISO w of
                         (Inl e, w1) \<Rightarrow> ((500, ErrorOf e), w1)
                       | (Inr eligible, w1) \<Rightarrow>
                           if eligible = []
                           then ((409, ErrorText ''Slot no longer available''), w1)
                           else
                             (case js_sort by_priority eligible of
                                [] \<Rightarrow> ((500, ErrorOf (TypeError ''chosen is undefined'')), w1)
                              | chosen # others \<Rightarrow>
                                  reserve rt chosen startISO endISO name email w1))))
      | _ \<Rightarrow> ((400, ErrorText ''start_time, end_time, invitee{name,email} are required''), w))"

section \<open>A reference engine for concrete runs\<close>

text \<open>
  The theorems below hold for every \<open>Date.parse\<close> and \<open>localeCompare\<close>. Concrete runs
  need an instance of each. \<open>iso_parse\<close> reads the date-time format of ECMAScript,
  \<open>YYYY-MM-DDTHH:mm:ss\<close>, an optional \<open>.sss\<close>, then \<open>Z\<close> or an offset \<open>+HH:mm\<close> or
  \<open>-HH:mm\<close>, with every field in range, and is NaN on any other string; on the strings
  it accepts, every engine's \<open>Date.parse\<close> gives the same time value.
  \<open>code_unit_compare\<close> orders strings by their code units; \<open>localeCompare\<close> gives the same
  sign on two strings whose first difference is between two digits.
\<close>

definition days_from_civil :: "int \<Rightarrow> int \<Rightarrow> int \<Rightarrow> int" where
  "days_from_civil y m d =
     (let y1 = (if m \<le> 2 then y - 1 else y);
          era = y1 div 400;
          yoe = y1 - era * 400;
          mp = (m + 9) mod 12;
          doy = (153 * mp + 2) div 5 + d - 1;
          doe = yoe * 365 + yoe div 4 - yoe div 100 + doy
      in era * 146097 + doe - 719468)"

definition days_in_month :: "int \<Rightarrow> int \<Rightarrow> int" where
  "days_in_month y m =
     (if m = 2 then (if y mod 4 = 0 \<and> (y mod 100 \<noteq> 0 \<or> y mod 400 = 0) then 29 else 28)
      else if m = 4 \<or> m = 6 \<or> m = 9 \<or> m = 11 then 30 else 31)"

definition is_digit :: "char \<Rightarrow> bool" where
  "is_digit c = (CHR ''0'' \<le> c \<and> c \<le> CHR ''9'')"

definition number :: "string \<Rightarrow> int option" where
  "number s =
     (if s \<noteq> [] \<and> list_all is_digit s
      then Some (foldl (\<lambda>a c. 10 * a + (int (of_char c) - 48)) 0 s)
      else None)"

definition zone_offset :: "string \<Rightarrow> int option" where
  "zone_offset z =
     (if z = ''Z'' then Some 0
      else if length z = 6 \<and> (z ! 0 = CHR ''+'' \<or> z ! 0 = CHR ''-'') \<and> z ! 3 = CHR '':''
      then (case (number (take 2 (drop 1 z)), number (drop 4 z)) of
              (Some hh, Some mm) \<Rightarrow>
                if hh \<le> 23 \<and> mm \<le> 59
                then Some ((if z ! 0 = CHR ''-'' then - 1 else 1) * (hh * 60 + mm))
                else None
            | _ \<Rightarrow> None)
      else None)"

definition iso_parse :: "string \<Rightarrow> int option" where
  "iso_parse s =
     (if 20 \<le> length s \<and> s ! 4 = CHR ''-'' \<and> s ! 7 = CHR ''-'' \<and> s ! 10 = CHR ''T''
         \<and> s ! 13 = CHR '':'' \<and> s ! 16 = CHR '':''
      then
        (let rest = drop 19 s;
             fraction = (if take 1 rest = ''.'' then number (take 3 (drop 1 rest)) else Some 0);
             zone = (if take 1 rest = ''.'' then drop 4 rest else rest)
         in case (number (take 4 s), number (take 2 (drop 5 s)), number (take 2 (drop 8 s)),
                  number (take 2 (drop 11 s)), number (take 2 (drop 14 s)),
                  number (take 2 (drop 17 s)), fraction, zone_offset zone) of
              (Some y, Some m, Some d, Some hh, Some mm, Some ss, Some ms, Some off) \<Rightarrow>
                if 1 \<le> m \<and> m \<le> 12 \<and> 1 \<le> d \<and> d \<le> days_in_month y m
                   \<and> hh \<le> 23 \<and> mm \<le> 59 \<and> ss \<le> 59
                then Some ((((days_from_civil y m d * 24 + hh) * 60 + mm - off) * 60 + ss) * 1000
                           + ms)
                else None
            | _ \<Rightarrow> None)
      else None)"

definition code_unit_compare :: "string \<Rightarrow> string \<Rightarrow> int" where
  "code_unit_compare a b = (if a = b then 0 else if a < b then - 1 else 1)"

section \<open>Notions for the aggregator's result\<close>

text \<open>
  The slots of the fulfilled tasks in roster order, the \<open>{ id, name }\<close> a slot pushes onto
  its entry, the inner loop of the merge as a fold, whether a host's task is fulfilled,
  and the instant an entry's \<open>start_time\<close> denotes.
\<close>

definition slots_of :: "error + host_slot list \<Rightarrow> host_slot list" where
  "slots_of r = (case r of Inl reason \<Rightarrow> [] | Inr slots \<Rightarrow> slots)"

definition fulfilled_slots ::
  "runtime \<Rightarrow> host list \<Rightarrow> string \<Rightarrow> string \<Rightarrow> string option \<Rightarrow> world \<Rightarrow> host_slot list" where
  "fulfilled_slots rt roster start end timezone w =
     concat (map (\<lambda>h. slots_of (fst (host_task rt start end timezone h w))) roster)"

definition host_ref :: "host_slot \<Rightarrow> string \<times> string" where
  "host_ref s = (hs_host_id s, hs_host_name s)"

definition put_all :: "host_slot list \<Rightarrow> (string \<times> slot) list \<Rightarrow> (string \<times> slot) list" where
  "put_all ss b = foldl (\<lambda>b' s. bucket_put s b') b ss"

definition fulfilled ::
  "runtime \<Rightarrow> string \<Rightarrow> string \<Rightarrow> string option \<Rightarrow> world \<Rightarrow> host \<Rightarrow> bool" where
  "fulfilled rt start end timezone w h =
     (case fst (host_task rt start end timezone h w) of Inl reason \<Rightarrow> False | Inr slots \<Rightarrow> True)"

definition start_instant :: "runtime \<Rightarrow> slot \<Rightarrow> date" where
  "start_instant rt e = new_Date (Date_parse rt) (Some (start_time e))"

text \<open>
  What a host contributes, read off the provider's answer rather than off the task: the
  availability collection the provider returns for the host's event type, when the
  host's credential is set, its event type resolves, the answer is ok and JSON, and the
  \<open>start_time\<close> of every entry is a valid date; \<open>None\<close> for a host that fails at any
  of these. \<open>slot_for\<close> relates an entry of the collection to the slot the task builds
  for it.
\<close>

definition valid_start :: "runtime \<Rightarrow> available_time \<Rightarrow> bool" where
  "valid_start rt s =
     (case addMinutesISO rt (av_start_time s) 30 of Inl e \<Rightarrow> False | Inr en \<Rightarrow> True)"

definition host_entries ::
  "runtime \<Rightarrow> string \<Rightarrow> string \<Rightarrow> string option \<Rightarrow> world \<Rightarrow> host
     \<Rightarrow> available_time list option" where
  "host_entries rt start end timezone w h =
     (let token = env rt (pat_env h);
          tz = (case timezone of None \<Rightarrow> ''UTC'' | Some z \<Rightarrow> if z = [] then ''UTC'' else z)
      in if falsy token then None
         else
           (case resolveEventTypeApiUriForHost rt h w of
              (Inl e, w1) \<Rightarrow> None
            | (Inr et, w1) \<Rightarrow>
                (case event_type_available_times rt token et start end tz of
                   Rejected m \<Rightarrow> None
                 | Response status body js \<Rightarrow>
                     if \<not> ok status then None
                     else
                       (case js of
                          None \<Rightarrow> None
                        | Some data \<Rightarrow>
                            (let c = (case data of None \<Rightarrow> [] | Some l \<Rightarrow> l)
                             in if list_all (valid_start rt) c then Some c else None)))))"

definition slot_for :: "runtime \<Rightarrow> host \<Rightarrow> available_time \<Rightarrow> host_slot \<Rightarrow> bool" where
  "slot_for rt h s x \<longleftrightarrow>
     av_start_time s = Some (hs_start_time x)
     \<and> addMinutesISO rt (av_start_time s) 30 = Inr (hs_end_time x)
     \<and> hs_host_id x = host_id h \<and> hs_host_name x = display_name h"

section \<open>Requests that reserve\<close>

text \<open>
  A reservation attempt is a request that books: the direct booking
  (\<open>POST /event_invitees\<close>) or the fallback link (\<open>POST /scheduling_links\<close>).
\<close>

definition is_reservation :: "request \<Rightarrow> bool" where
  "is_reservation r =
     (case r of
        PostEventInvitees token et s e n m \<Rightarrow> True
      | PostSchedulingLinks token owner owner_type max_event_count \<Rightarrow> True
      | _ \<Rightarrow> False)"

definition reservations :: "world \<Rightarrow> request list" where
  "reservations w = filter is_reservation (log w)"

section \<open>A concrete roster and provider\<close>

text \<open>
  Four hosts; the environment holds a token for the first three. The provider is given
  by its availability answer per event type, the status of the direct booking and the
  answer to the link request.
\<close>

definition alice :: host where
  "alice = \<lparr>host_id = ''a'', display_name = ''Alice'', pat_env = ''PAT_A'',
            event_type_uri = ''https://calendly.com/alice/30min'', priority_weight = 10\<rparr>"

definition bob :: host where
  "bob = \<lparr>host_id = ''b'', display_name = ''Bob'', pat_env = ''PAT_B'',
          event_type_uri = ''https://calendly.com/bob/30min'', priority_weight = 20\<rparr>"

definition carol :: host where
  "carol = \<lparr>host_id = ''c'', display_name = ''Carol'', pat_env = ''PAT_C'',
            event_type_uri = ''https://calendly.com/carol/30min'', priority_weight = 20\<rparr>"

definition dave :: host where
  "dave = \<lparr>host_id = ''d'', display_name = ''Dave'', pat_env = ''PAT_D'',
           event_type_uri = ''https://calendly.com/dave/30min'', priority_weight = 5\<rparr>"

definition demo_env :: "string \<Rightarrow> string option" where
  "demo_env k =
     (if k = ''PAT_A'' then Some ''ta'' else if k = ''PAT_B'' then Some ''tb''
      else if k = ''PAT_C'' then Some ''tc'' else None)"

definition demo_event_types :: "event_type list" where
  "demo_event_types =
     [\<lparr>scheduling_url = ''https://calendly.com/alice/30min'', uri = ''et/a''\<rparr>,
      \<lparr>scheduling_url = ''https://calendly.com/bob/30min'', uri = ''et/b''\<rparr>,
      \<lparr>scheduling_url = ''https://calendly.com/carol/30min'', uri = ''et/c''\<rparr>]"

definition demo_rt ::
  "(string \<Rightarrow> available_time list option fetched) \<Rightarrow> nat \<Rightarrow> string option fetched \<Rightarrow> runtime" where
  "demo_rt avail direct_status link =
     \<lparr>env = demo_env,
      users_me = (\<lambda>token. Response 200 [] (Some (Some ''https://api.calendly.com/users/U''))),
      event_types = (\<lambda>token user. Response 200 [] (Some (Some demo_event_types))),
      event_type_available_times = (\<lambda>token et s e tz. avail et),
      event_invitees = (\<lambda>token et s e name email.
         if ok direct_status then Response direct_status [] (Some ''{booking}'')
         else Response direct_status ''rejected'' None),
      scheduling_links = (\<lambda>token owner owner_type max_event_count. link),
      Date_parse = iso_parse,
      localeCompare = code_unit_compare\<rparr>"

definition demo_times :: "string \<Rightarrow> available_time list option fetched" where
  "demo_times et =
     Response 200 []
       (Some (Some [AvailableTime (Some ''2025-11-07T10:00:00Z'') (Some ''2025-11-07T10:30:00Z'')]))"

definition demo_link :: "string option fetched" where
  "demo_link = Response 201 [] (Some (Some ''https://calendly.com/d/abc''))"

definition demo_body :: book_body where
  "demo_body = \<lparr>body_start_time = Some ''2025-11-07T10:00:00Z'',
                 body_end_time = Some ''2025-11-07T10:30:00Z'',
                 invitee_name = Some ''Ann'', invitee_email = Some ''ann@example.org''\<rparr>"

definition fresh :: world where
  "fresh = \<lparr>cache = Map.empty, log = []\<rparr>"

definition overlapping_times :: "string \<Rightarrow> available_time list option fetched" where
  "overlapping_times et =
     Response 200 []
       (Some (Some [AvailableTime (Some ''2025-11-07T10:00:00Z'') (Some ''2025-11-07T11:00:00Z''),
                    AvailableTime (Some ''2025-11-07T09:30:00Z'') (Some ''2025-11-07T10:30:00Z'')]))"

definition erin :: host where
  "erin = \<lparr>host_id = ''e'', display_name = ''Erin'', pat_env = ''PAT_A'',
           event_type_uri = ''https://calendly.com/erin/30min'', priority_weight = 30\<rparr>"

definition mixed_times :: "string \<Rightarrow> available_time list option fetched" where
  "mixed_times et =
     Response 200 []
       (Some (Some [AvailableTime (Some ''2025-11-07T10:00:00Z'') (Some ''2025-11-07T11:00:00Z''),
                    AvailableTime (Some ''2025-11-07T15:30:00+05:30'')
                      (Some ''2025-11-07T10:30:00.000Z'')]))"

text \<open>Availability answers for the aggregator: entries with a \<open>start_time\<close> only.\<close>

definition starts :: "string list \<Rightarrow> available_time list option fetched" where
  "starts ss = Response 200 [] (Some (Some (map (\<lambda>s. AvailableTime (Some s) None) ss)))"

definition agg_times :: "string \<Rightarrow> available_time list option fetched" where
  "agg_times et =
     (if et = ''et/a'' then starts [''2025-11-07T10:00:00Z'', ''2025-11-07T09:00:00Z'']
      else if et = ''et/b'' then starts [''2025-11-07T10:00:00Z'']
      else Response 500 ''down'' None)"

definition dup_times :: "string \<Rightarrow> available_time list option fetched" where
  "dup_times et = starts [''2025-11-07T10:00:00Z'', ''2025-11-07T10:00:00Z'']"

definition offset_times :: "string \<Rightarrow> available_time list option fetched" where
  "offset_times et = starts [''2025-11-07T10:00:00+05:30'', ''2025-11-07T06:00:00Z'']"

definition spelling_times :: "string \<Rightarrow> available_time list option fetched" where
  "spelling_times et =
     (if et = ''et/a'' then starts [''2025-11-07T15:30:00+05:30'']
      else starts [''2025-11-07T10:00:00Z''])"

definition day_start :: string where "day_start = ''2025-11-07T00:00:00.000Z''"

definition day_end :: string where "day_end = ''2025-11-08T00:00:00.000Z''"

section \<open>Properties of the stable sort\<close>

lemma set_insert_by: "set (insert_by cmp x ys) = insert x (set ys)"
  by (induction ys) auto

lemma set_js_sort: "set (js_sort cmp xs) = set xs"
  by (induction xs) (auto simp: js_sort_def set_insert_by)

lemma js_sort_Cons: "js_sort cmp (x # xs) = insert_by cmp x (js_sort cmp xs)"
  by (simp add: js_sort_def)

lemma js_sort_Nil: "js_sort cmp [] = []"
  by (simp add: js_sort_def)

lemma js_sort_eq_Nil: "js_sort cmp xs = [] \<longleftrightarrow> xs = []"
  by (metis set_js_sort set_empty)

lemma find_stronger:
  "find P xs = Some c \<Longrightarrow> Q c \<Longrightarrow> (\<And>y. y \<in> set xs \<Longrightarrow> Q y \<Longrightarrow> P y) \<Longrightarrow> find Q xs = Some c"
  by (induction xs) (auto split: if_splits)

lemma find_Some_mem: "find P xs = Some c \<Longrightarrow> c \<in> set xs \<and> P c"
  by (induction xs) (auto split: if_splits)

lemma js_sort_by_priority_first_max:
  "xs \<noteq> [] \<Longrightarrow>
   \<exists>c rest. js_sort by_priority xs = c # rest
     \<and> find (\<lambda>c. \<forall>e\<in>set xs. priority_weight (fst e) \<le> priority_weight (fst c)) xs = Some c"
proof (induction xs)
  case Nil
  then show ?case by simp
next
  case (Cons x xs)
  show ?case
  proof (cases "xs = []")
    case True
    then show ?thesis by (simp add: js_sort_def)
  next
    case False
    from Cons.IH [OF False] obtain c rest where
      s: "js_sort by_priority xs = c # rest" and
      f: "find (\<lambda>c. \<forall>e\<in>set xs. priority_weight (fst e) \<le> priority_weight (fst c)) xs = Some c"
      by blast
    from find_Some_mem [OF f] have cm: "c \<in> set xs"
      and cmax: "\<forall>e\<in>set xs. priority_weight (fst e) \<le> priority_weight (fst c)" by auto
    show ?thesis
    proof (cases "priority_weight (fst c) \<le> priority_weight (fst x)")
      case True
      then have "insert_by by_priority x (c # rest) = x # c # rest"
        by (simp add: by_priority_def)
      with True s cmax show ?thesis
        by (auto simp: js_sort_Cons)
    next
      case False
      have "find (\<lambda>c. \<forall>e\<in>set (x # xs). priority_weight (fst e) \<le> priority_weight (fst c)) xs = Some c"
        by (rule find_stronger [OF f]) (use False cmax in auto)
      moreover from False have "insert_by by_priority x (c # rest) = c # insert_by by_priority x rest"
        by (simp add: by_priority_def)
      ultimately show ?thesis using False s cm
        by (auto simp: js_sort_Cons)
    qed
  qed
qed

section \<open>Properties of dates\<close>

lemma toISOString_Some: "\<exists>s. toISOString (Some t) = Inr s"
  by (simp add: toISOString_def Let_def split: prod.splits)

lemma toISOString_Inr: "toISOString d = Inr s \<Longrightarrow> \<exists>t. d = Some t"
  by (cases d) (simp_all add: toISOString_def)

lemma new_Date_bounds: "new_Date parse v = Some t \<Longrightarrow> \<bar>t\<bar> \<le> max_time"
  by (auto simp: new_Date_def TimeClip_def split: option.splits if_splits)

lemma sameInstant_iff:
  "new_Date (Date_parse rt) b = Some t \<Longrightarrow>
   sameInstant rt a b \<longleftrightarrow> new_Date (Date_parse rt) a = Some t"
  by (auto simp: sameInstant_def split: option.splits)

section \<open>Properties of the booking route\<close>

lemma calendly_log: "calendly req res w = (r, w') \<Longrightarrow> log w' = log w @ [req]"
  by (auto simp: calendly_def Let_def split: fetched.splits if_splits option.splits)

lemma calendly_cache: "calendly req res w = (r, w') \<Longrightarrow> cache w' = cache w"
  by (auto simp: calendly_def Let_def split: fetched.splits if_splits option.splits)

lemma resolve_reservations:
  "resolveEventTypeApiUriForHost rt h w = (r, w') \<Longrightarrow> reservations w' = reservations w"
  by (auto simp: resolveEventTypeApiUriForHost_def reservations_def is_reservation_def Let_def
      dest!: calendly_log split: option.splits if_splits prod.splits sum.splits)

lemma hostHasExactSlot_reservations:
  "hostHasExactSlot rt h s e w = (r, w') \<Longrightarrow> reservations w' = reservations w"
  by (auto simp: hostHasExactSlot_def Let_def reservations_def is_reservation_def
      dest!: calendly_log resolve_reservations [unfolded reservations_def]
      split: option.splits if_splits prod.splits sum.splits)

lemma eligible_hosts_reservations:
  "eligible_hosts rt roster s e w = (r, w') \<Longrightarrow> reservations w' = reservations w"
proof (induction roster arbitrary: w r w')
  case Nil
  then show ?case by simp
next
  case (Cons h hs)
  then show ?case
    by (auto dest!: hostHasExactSlot_reservations resolve_reservations
        split: prod.splits sum.splits if_splits)
qed

lemma eligible_hosts_subseq:
  "eligible_hosts rt roster s e w = (Inr el, w') \<Longrightarrow> subseq (map fst el) roster"
proof (induction roster arbitrary: w el w')
  case Nil
  then show ?case by simp
next
  case (Cons h hs)
  then show ?case
    by (auto split: prod.splits sum.splits if_splits)
qed

lemma book_valid:
  assumes "body_start_time body = Some s" "body_end_time body = Some e"
    and "invitee_email body = Some email" "invitee_name body = Some name"
    and "s \<noteq> []" "e \<noteq> []" "email \<noteq> []" "name \<noteq> []"
    and "toISO rt s = Inr startISO" "toISO rt e = Inr endISO"
    and "eligible_hosts rt roster startISO endISO w = (Inr eligible, w1)"
  shows "book rt roster body w =
     (if eligible = [] then ((409, ErrorText ''Slot no longer available''), w1)
      else (case js_sort by_priority eligible of
              [] \<Rightarrow> ((500, ErrorOf (TypeError ''chosen is undefined'')), w1)
            | chosen # others \<Rightarrow> reserve rt chosen startISO endISO name email w1))"
  using assms by (simp add: book_def)

lemma eligible_hosts_verified:
  "eligible_hosts rt roster s e w = (Inr el, w') \<Longrightarrow>
   \<forall>c\<in>set el. \<exists>v v'. hostHasExactSlot rt (fst c) s e v = (Inr True, v')"
proof (induction roster arbitrary: w el w')
  case Nil
  then show ?case by simp
next
  case (Cons h hs)
  show ?case
  proof (cases "hostHasExactSlot rt h s e w")
    case (Pair r w1)
    show ?thesis
    proof (cases r)
      case (Inl err)
      with Pair Cons.prems show ?thesis by simp
    next
      case (Inr has)
      show ?thesis
      proof (cases has)
        case False
        with Pair Inr Cons.prems have "eligible_hosts rt hs s e w1 = (Inr el, w')" by simp
        then show ?thesis by (rule Cons.IH)
      next
        case True
        with Pair Inr have v: "hostHasExactSlot rt h s e w = (Inr True, w1)" by simp
        from Cons.prems Pair Inr True obtain et w2 rest where
          "eligible_hosts rt hs s e w2 = (Inr rest, w')" "el = (h, et) # rest"
          by (auto split: prod.splits sum.splits)
        with Cons.IH [of w2 rest w'] v show ?thesis by auto
      qed
    qed
  qed
qed

text \<open>
  Claim C1. When the loop over the roster has collected a non-empty list of eligible
  hosts, the booking is attempted for the first host of that list whose priority weight
  is maximal among the eligible hosts. The eligible list keeps the roster's order, so
  among hosts of equal maximal weight the one listed first in the roster is chosen; and
  every host in the list is one for which \<open>hostHasExactSlot\<close> returned true.
\<close>

theorem book_selects_first_highest_priority:
  assumes "body_start_time body = Some s" "body_end_time body = Some e"
    and "invitee_email body = Some email" "invitee_name body = Some name"
    and "s \<noteq> []" "e \<noteq> []" "email \<noteq> []" "name \<noteq> []"
    and "toISO rt s = Inr startISO" "toISO rt e = Inr endISO"
    and "eligible_hosts rt roster startISO endISO w = (Inr eligible, w1)"
    and "eligible \<noteq> []"
  shows "\<exists>chosen.
           find (\<lambda>c. \<forall>x\<in>set eligible. priority_weight (fst x) \<le> priority_weight (fst c))
             eligible = Some chosen
         \<and> book rt roster body w = reserve rt chosen startISO endISO name email w1
         \<and> subseq (map fst eligible) roster
         \<and> (\<forall>c\<in>set eligible. \<exists>v v'. hostHasExactSlot rt (fst c) startISO endISO v = (Inr True, v'))"
proof -
  from js_sort_by_priority_first_max [OF assms(12)] obtain c rest where
    srt: "js_sort by_priority eligible = c # rest" and
    fnd: "find (\<lambda>c. \<forall>x\<in>set eligible. priority_weight (fst x) \<le> priority_weight (fst c))
            eligible = Some c"
    by blast
  have "book rt roster body w = reserve rt c startISO endISO name email w1"
    using book_valid [OF assms(1-11)] assms(12) srt by simp
  moreover have "subseq (map fst eligible) roster"
    using assms(11) by (rule eligible_hosts_subseq)
  moreover have "\<forall>c\<in>set eligible. \<exists>v v'. hostHasExactSlot rt (fst c) startISO endISO v = (Inr True, v')"
    using assms(11) by (rule eligible_hosts_verified)
  ultimately show ?thesis using fnd by blast
qed

theorem book_selects_first_highest_priority_witness:
  "fst (book (demo_rt demo_times 201 demo_link) [alice, bob, carol] demo_body fresh)
     = (200, Booked ''{booking}'' ''Bob'')
   \<and> find (\<lambda>c. \<forall>x\<in>set [(alice, ''et/a''), (bob, ''et/b''), (carol, ''et/c'')].
              priority_weight (fst x) \<le> priority_weight (fst c))
         [(alice, ''et/a''), (bob, ''et/b''), (carol, ''et/c'')] = Some (bob, ''et/b'')"
proof -
  let ?rt = "demo_rt demo_times 201 demo_link"
  let ?el = "[(alice, ''et/a''), (bob, ''et/b''), (carol, ''et/c'')]"
  let ?scan = "eligible_hosts ?rt [alice, bob, carol] ''2025-11-07T10:00:00.000Z''
                 ''2025-11-07T10:30:00.000Z'' fresh"
  have b: "body_start_time demo_body = Some ''2025-11-07T10:00:00Z''"
    "body_end_time demo_body = Some ''2025-11-07T10:30:00Z''"
    "invitee_email demo_body = Some ''ann@example.org''" "invitee_name demo_body = Some ''Ann''"
    by (simp_all add: demo_body_def)
  have n: "''2025-11-07T10:00:00Z'' \<noteq> []" "''2025-11-07T10:30:00Z'' \<noteq> []"
    "''ann@example.org'' \<noteq> []" "''Ann'' \<noteq> []"
    by simp_all
  have t: "toISO ?rt ''2025-11-07T10:00:00Z'' = Inr ''2025-11-07T10:00:00.000Z''"
    "toISO ?rt ''2025-11-07T10:30:00Z'' = Inr ''2025-11-07T10:30:00.000Z''"
    by code_simp+
  have "fst ?scan = Inr ?el" by code_simp
  then have sc: "?scan = (Inr ?el, snd ?scan)" by (simp add: prod_eq_iff)
  have ne: "?el \<noteq> []" by simp
  have f: "find (\<lambda>c. \<forall>x\<in>set ?el. priority_weight (fst x) \<le> priority_weight (fst c)) ?el
             = Some (bob, ''et/b'')"
    by code_simp
  have r: "fst (reserve ?rt (bob, ''et/b'') ''2025-11-07T10:00:00.000Z''
             ''2025-11-07T10:30:00.000Z'' ''Ann'' ''ann@example.org'' (snd ?scan))
           = (200, Booked ''{booking}'' ''Bob'')"
    by code_simp
  from book_selects_first_highest_priority [OF b n t sc ne] f r show ?thesis
    by auto
qed

lemma reserve_reservations_direct:
  "reservations (snd (reserve rt chosen startISO endISO name email w)) =
     reservations w @
       PostEventInvitees (env rt (pat_env (fst chosen))) (snd chosen) startISO endISO name email
       # (case event_invitees rt (env rt (pat_env (fst chosen))) (snd chosen) startISO endISO
                name email of
            Rejected m \<Rightarrow> []
          | Response status text js \<Rightarrow>
              if \<not> ok status \<and> designated status
              then [PostSchedulingLinks (env rt (pat_env (fst chosen))) (snd chosen) ''EventType'' 1]
              else [])"
  by (simp add: reserve_def Let_def reservations_def is_reservation_def
      split: fetched.splits option.splits)

lemma demo_body_fields:
  "body_start_time demo_body = Some ''2025-11-07T10:00:00Z''"
  "body_end_time demo_body = Some ''2025-11-07T10:30:00Z''"
  "invitee_email demo_body = Some ''ann@example.org''"
  "invitee_name demo_body = Some ''Ann''"
  "''2025-11-07T10:00:00Z'' \<noteq> []" "''2025-11-07T10:30:00Z'' \<noteq> []"
  "''ann@example.org'' \<noteq> []" "''Ann'' \<noteq> []"
  by (simp_all add: demo_body_def)

lemma demo_toISO:
  "toISO (demo_rt avail status link) ''2025-11-07T10:00:00Z'' = Inr ''2025-11-07T10:00:00.000Z''"
  "toISO (demo_rt avail status link) ''2025-11-07T10:30:00Z'' = Inr ''2025-11-07T10:30:00.000Z''"
  by code_simp+

text \<open>
  Claim C2. The direct booking of the chosen host was answered with a status that is not
  ok. If the status is 403, 404 or 422, the reservation requests of the call are the
  direct booking followed by exactly one scheduling link request, owned by the chosen
  host's event type with \<open>max_event_count\<close> 1; an ok answer to it gives the redirect
  reply with the link's URL and the host's display name, an answer that is not ok gives
  502. With any other status the reply is 502 and the direct booking is the only
  reservation request.
\<close>

theorem book_fallback:
  assumes "body_start_time body = Some s" "body_end_time body = Some e"
    and "invitee_email body = Some email" "invitee_name body = Some name"
    and "s \<noteq> []" "e \<noteq> []" "email \<noteq> []" "name \<noteq> []"
    and "toISO rt s = Inr startISO" "toISO rt e = Inr endISO"
    and "eligible_hosts rt roster startISO endISO w = (Inr eligible, w1)"
    and "js_sort by_priority eligible = chosen # others"
    and "token = env rt (pat_env (fst chosen))" "et = snd chosen"
    and "event_invitees rt token et startISO endISO name email = Response status text js"
    and "\<not> ok status"
  shows "(status \<in> {403, 404, 422} \<longrightarrow>
            reservations (snd (book rt roster body w)) =
              reservations w @ [PostEventInvitees token et startISO endISO name email,
                                PostSchedulingLinks token et ''EventType'' 1]
            \<and> (\<forall>ls lt url. scheduling_links rt token et ''EventType'' 1 = Response ls lt (Some url)
                   \<and> ok ls \<longrightarrow>
                 fst (book rt roster body w) = (200, RedirectTo url (display_name (fst chosen))))
            \<and> (\<forall>ls lt lj. scheduling_links rt token et ''EventType'' 1 = Response ls lt lj
                   \<and> \<not> ok ls \<longrightarrow>
                 fst (book rt roster body w) = (502, FallbackFailed ls lt)))
       \<and> (status \<notin> {403, 404, 422} \<longrightarrow>
            reservations (snd (book rt roster body w)) =
              reservations w @ [PostEventInvitees token et startISO endISO name email]
            \<and> fst (book rt roster body w) = (502, SchedulingFailed status text))"
proof -
  have ne: "eligible \<noteq> []"
    using assms(12) by (auto simp: js_sort_Nil)
  have bk: "book rt roster body w = reserve rt chosen startISO endISO name email w1"
    using book_valid [OF assms(1-11)] ne assms(12) by simp
  have w1: "reservations w1 = reservations w"
    using assms(11) by (rule eligible_hosts_reservations)
  have d: "designated status \<longleftrightarrow> status \<in> {403, 404, 422}"
    by (simp add: designated_def)
  have lg: "reservations (snd (book rt roster body w)) =
      reservations w @ PostEventInvitees token et startISO endISO name email
        # (if designated status then [PostSchedulingLinks token et ''EventType'' 1] else [])"
    using assms(13-16) by (simp add: bk reserve_reservations_direct w1)
  have rp: "fst (book rt roster body w) =
      (if designated status then
         (case scheduling_links rt token et ''EventType'' 1 of
            Rejected m \<Rightarrow> (500, ErrorOf (FetchError m))
          | Response ls lt lj \<Rightarrow>
              if \<not> ok ls then (502, FallbackFailed ls lt)
              else (case lj of None \<Rightarrow> (500, ErrorOf JsonError)
                    | Some url \<Rightarrow> (200, RedirectTo url (display_name (fst chosen)))))
       else (502, SchedulingFailed status text))"
    using assms(13-16) by (simp add: bk reserve_def Let_def split: fetched.splits option.splits)
  show ?thesis
    using lg rp d by auto
qed

theorem book_fallback_witness:
  "fst (book (demo_rt demo_times 403 demo_link) [alice, bob, carol] demo_body fresh)
     = (200, RedirectTo (Some ''https://calendly.com/d/abc'') ''Bob'')
   \<and> reservations (snd (book (demo_rt demo_times 403 demo_link) [alice, bob, carol] demo_body fresh))
     = [PostEventInvitees (Some ''tb'') ''et/b'' ''2025-11-07T10:00:00.000Z''
          ''2025-11-07T10:30:00.000Z'' ''Ann'' ''ann@example.org'',
        PostSchedulingLinks (Some ''tb'') ''et/b'' ''EventType'' 1]
   \<and> fst (book (demo_rt demo_times 422 (Response 500 ''down'' None)) [alice, bob, carol]
            demo_body fresh)
     = (502, FallbackFailed 500 ''down'')
   \<and> fst (book (demo_rt demo_times 500 demo_link) [alice, bob, carol] demo_body fresh)
     = (502, SchedulingFailed 500 ''rejected'')
   \<and> reservations (snd (book (demo_rt demo_times 500 demo_link) [alice, bob, carol] demo_body fresh))
     = [PostEventInvitees (Some ''tb'') ''et/b'' ''2025-11-07T10:00:00.000Z''
          ''2025-11-07T10:30:00.000Z'' ''Ann'' ''ann@example.org'']"
proof -
  let ?el = "[(alice, ''et/a''), (bob, ''et/b''), (carol, ''et/c'')]"
  let ?s = "''2025-11-07T10:00:00.000Z''" and ?e = "''2025-11-07T10:30:00.000Z''"
  have srt: "js_sort by_priority ?el = (bob, ''et/b'') # [(carol, ''et/c''), (alice, ''et/a'')]"
    by code_simp
  have tok: "Some ''tb'' = env (demo_rt avail status link) (pat_env (fst (bob, ''et/b'')))"
    for avail status link by code_simp
  have et: "''et/b'' = snd (bob, ''et/b'')" by simp
  have fr: "reservations fresh = []" by code_simp
  have ok: "\<not> ok 403" "\<not> ok 422" "\<not> ok 500" "ok 201" by (simp_all add: ok_def)
  have scan: "eligible_hosts (demo_rt demo_times status link) [alice, bob, carol] ?s ?e fresh
      = (Inr ?el, snd (eligible_hosts (demo_rt demo_times status link) [alice, bob, carol] ?s ?e fresh))"
    for status link
  proof -
    have "fst (eligible_hosts (demo_rt demo_times status link) [alice, bob, carol] ?s ?e fresh)
      = Inr ?el" by code_simp
    then show ?thesis by (simp add: prod_eq_iff)
  qed
  have d403: "event_invitees (demo_rt demo_times 403 link) (Some ''tb'') ''et/b'' ?s ?e ''Ann''
      ''ann@example.org'' = Response 403 ''rejected'' None" for link
    by code_simp
  have d422: "event_invitees (demo_rt demo_times 422 link) (Some ''tb'') ''et/b'' ?s ?e ''Ann''
      ''ann@example.org'' = Response 422 ''rejected'' None" for link
    by code_simp
  have d500: "event_invitees (demo_rt demo_times 500 link) (Some ''tb'') ''et/b'' ?s ?e ''Ann''
      ''ann@example.org'' = Response 500 ''rejected'' None" for link
    by code_simp
  have l1: "scheduling_links (demo_rt demo_times 403 demo_link) (Some ''tb'') ''et/b'' ''EventType'' 1
      = Response 201 [] (Some (Some ''https://calendly.com/d/abc''))"
    by code_simp
  have l2: "scheduling_links (demo_rt demo_times 422 (Response 500 ''down'' None)) (Some ''tb'')
      ''et/b'' ''EventType'' 1 = Response 500 ''down'' None"
    by code_simp
  note a = book_fallback [OF demo_body_fields demo_toISO scan srt tok et d403 ok(1)]
  note b = book_fallback [OF demo_body_fields demo_toISO scan srt tok et d422 ok(2)]
  note c = book_fallback [OF demo_body_fields demo_toISO scan srt tok et d500 ok(3)]
  from a [of demo_link] l1 ok(4) fr
  have 1: "fst (book (demo_rt demo_times 403 demo_link) [alice, bob, carol] demo_body fresh)
     = (200, RedirectTo (Some ''https://calendly.com/d/abc'') ''Bob'')"
    and 2: "reservations (snd (book (demo_rt demo_times 403 demo_link) [alice, bob, carol] demo_body fresh))
     = [PostEventInvitees (Some ''tb'') ''et/b'' ?s ?e ''Ann'' ''ann@example.org'',
        PostSchedulingLinks (Some ''tb'') ''et/b'' ''EventType'' 1]"
    by (simp_all add: bob_def)
  from b [of "Response 500 ''down'' None"] l2 ok(3)
  have 3: "fst (book (demo_rt demo_times 422 (Response 500 ''down'' None)) [alice, bob, carol]
            demo_body fresh) = (502, FallbackFailed 500 ''down'')"
    by simp
  from c [of demo_link] fr
  have 4: "fst (book (demo_rt demo_times 500 demo_link) [alice, bob, carol] demo_body fresh)
     = (502, SchedulingFailed 500 ''rejected'')"
    and 5: "reservations (snd (book (demo_rt demo_times 500 demo_link) [alice, bob, carol] demo_body fresh))
     = [PostEventInvitees (Some ''tb'') ''et/b'' ?s ?e ''Ann'' ''ann@example.org'']"
    by simp_all
  from 1 2 3 4 5 show ?thesis by blast
qed

text \<open>
  Claim C9. When the loop over the roster ends with no eligible host, the reply is 409
  and the call has sent no reservation request: neither a direct booking nor a link
  request.
\<close>

theorem book_no_eligible_host:
  assumes "body_start_time body = Some s" "body_end_time body = Some e"
    and "invitee_email body = Some email" "invitee_name body = Some name"
    and "s \<noteq> []" "e \<noteq> []" "email \<noteq> []" "name \<noteq> []"
    and "toISO rt s = Inr startISO" "toISO rt e = Inr endISO"
    and "eligible_hosts rt roster startISO endISO w = (Inr [], w1)"
  shows "fst (book rt roster body w) = (409, ErrorText ''Slot no longer available'')
       \<and> reservations (snd (book rt roster body w)) = reservations w"
  using book_valid [OF assms] eligible_hosts_reservations [OF assms(11)] by simp

theorem book_no_eligible_host_witness:
  "fst (eligible_hosts (demo_rt overlapping_times 201 demo_link) [alice, bob, carol]
          ''2025-11-07T10:00:00.000Z'' ''2025-11-07T10:30:00.000Z'' fresh) = Inr []
   \<and> fst (book (demo_rt overlapping_times 201 demo_link) [alice, bob, carol] demo_body fresh)
       = (409, ErrorText ''Slot no longer available'')
   \<and> reservations (snd (book (demo_rt overlapping_times 201 demo_link) [alice, bob, carol]
                           demo_body fresh)) = []"
proof -
  let ?rt = "demo_rt overlapping_times 201 demo_link"
  let ?scan = "eligible_hosts ?rt [alice, bob, carol] ''2025-11-07T10:00:00.000Z''
                 ''2025-11-07T10:30:00.000Z'' fresh"
  have f: "fst ?scan = Inr []" by code_simp
  then have sc: "?scan = (Inr [], snd ?scan)" by (simp add: prod_eq_iff)
  have fr: "reservations fresh = []" by code_simp
  from book_no_eligible_host [OF demo_body_fields demo_toISO sc] f fr show ?thesis
    by simp
qed

section \<open>Properties of the exact slot verifier\<close>

text \<open>
  What the \<open>try\<close> of \<open>hostHasExactSlot\<close> covers: once the event type is resolved and
  both instants are valid, a failed availability query gives \<open>false\<close>. An error of the
  resolver is outside the \<open>try\<close> and leaves the function as it is.
\<close>

lemma hostHasExactSlot_query_failure:
  assumes "resolveEventTypeApiUriForHost rt h w = (Inr et, w1)"
    and "toISO rt start = Inr startISO" "toISO rt finish = Inr endISO"
    and "calendly (GetAvailableTimes (env rt (pat_env h)) et startISO endISO ''UTC'')
           (event_type_available_times rt (env rt (pat_env h)) et startISO endISO ''UTC'') w1
         = (Inl err, w2)"
  shows "hostHasExactSlot rt h start finish w = (Inr False, w2)"
  using assms by (simp add: hostHasExactSlot_def)

lemma hostHasExactSlot_resolution_error:
  assumes "resolveEventTypeApiUriForHost rt h w = (Inl err, w1)"
  shows "hostHasExactSlot rt h start finish w = (Inl err, w1)"
  using assms by (simp add: hostHasExactSlot_def)

text \<open>
  Claim C3. The claim asks for \<open>false\<close> on every failure during verification. For a
  host whose credential variable is unset, and for a host whose scheduling URL matches
  no event type, the resolver's error leaves \<open>hostHasExactSlot\<close> instead, and the
  booking of a roster that holds such a host is answered with 500.
\<close>

theorem hostHasExactSlot_throws_on_resolution_failure:
  "fst (hostHasExactSlot (demo_rt demo_times 201 demo_link) dave ''2025-11-07T10:00:00.000Z''
          ''2025-11-07T10:30:00.000Z'' fresh) = Inl (MissingPAT ''d'' ''PAT_D'')
   \<and> fst (book (demo_rt demo_times 201 demo_link) [alice, dave] demo_body fresh)
       = (500, ErrorOf (MissingPAT ''d'' ''PAT_D''))
   \<and> fst (hostHasExactSlot (demo_rt demo_times 201 demo_link) erin ''2025-11-07T10:00:00.000Z''
          ''2025-11-07T10:30:00.000Z'' fresh)
       = Inl (NoEventType ''https://calendly.com/erin/30min'' ''e''
                (map scheduling_url demo_event_types))"
  by code_simp

text \<open>
  Claim C4. Once the event type is resolved and both requested instants are valid,
  \<open>hostHasExactSlot\<close> returns a boolean, and it is true exactly when the availability
  query is answered ok with a collection that holds an entry whose start and end are,
  as instants, the requested start and end. The requested instants are compared through
  their canonical strings; that the engine reads a canonical string back as the instant
  it renders is a hypothesis on \<open>Date.parse\<close>.
\<close>

theorem hostHasExactSlot_exact_match:
  assumes "resolveEventTypeApiUriForHost rt h w = (Inr et, w1)"
    and "toISO rt start = Inr startISO" "toISO rt finish = Inr endISO"
    and "new_Date (Date_parse rt) (Some startISO) = new_Date (Date_parse rt) (Some start)"
    and "new_Date (Date_parse rt) (Some endISO) = new_Date (Date_parse rt) (Some finish)"
  shows "\<exists>b. fst (hostHasExactSlot rt h start finish w) = Inr b
     \<and> (b \<longleftrightarrow>
          (\<exists>status text c.
             event_type_available_times rt (env rt (pat_env h)) et startISO endISO ''UTC''
               = Response status text (Some c)
             \<and> ok status
             \<and> (\<exists>s\<in>set (case c of None \<Rightarrow> [] | Some l \<Rightarrow> l).
                  new_Date (Date_parse rt) (av_start_time s) = new_Date (Date_parse rt) (Some start)
                  \<and> new_Date (Date_parse rt) (av_end_time s)
                      = new_Date (Date_parse rt) (Some finish))))"
proof -
  from assms(2) obtain ts where ts: "new_Date (Date_parse rt) (Some start) = Some ts"
    by (auto simp: toISO_def dest: toISOString_Inr)
  from assms(3) obtain te where te: "new_Date (Date_parse rt) (Some finish) = Some te"
    by (auto simp: toISO_def dest: toISOString_Inr)
  have s: "sameInstant rt a (Some startISO) \<longleftrightarrow> new_Date (Date_parse rt) a = Some ts" for a
    using assms(4) ts by (simp add: sameInstant_iff)
  have e: "sameInstant rt a (Some endISO) \<longleftrightarrow> new_Date (Date_parse rt) a = Some te" for a
    using assms(5) te by (simp add: sameInstant_iff)
  show ?thesis
    using assms(1-3)
    by (cases "event_type_available_times rt (env rt (pat_env h)) et startISO endISO ''UTC''")
      (auto simp: hostHasExactSlot_def calendly_def Let_def s e ts te list_ex_iff
        split: option.splits)
qed

theorem hostHasExactSlot_exact_match_witness:
  "fst (hostHasExactSlot (demo_rt mixed_times 201 demo_link) bob ''2025-11-07T10:00:00Z''
          ''2025-11-07T10:30:00Z'' fresh) = Inr True
   \<and> fst (hostHasExactSlot (demo_rt overlapping_times 201 demo_link) bob ''2025-11-07T10:00:00Z''
          ''2025-11-07T10:30:00Z'' fresh) = Inr False"
proof -
  let ?s = "''2025-11-07T10:00:00Z''" and ?e = "''2025-11-07T10:30:00Z''"
  let ?si = "''2025-11-07T10:00:00.000Z''" and ?ei = "''2025-11-07T10:30:00.000Z''"
  have res: "resolveEventTypeApiUriForHost (demo_rt avail 201 demo_link) bob fresh
      = (Inr ''et/b'', snd (resolveEventTypeApiUriForHost (demo_rt avail 201 demo_link) bob fresh))"
    for avail
  proof -
    have "fst (resolveEventTypeApiUriForHost (demo_rt avail 201 demo_link) bob fresh) = Inr ''et/b''"
      by code_simp
    then show ?thesis by (simp add: prod_eq_iff)
  qed
  have rt: "new_Date (Date_parse (demo_rt avail 201 demo_link)) (Some ?si)
        = new_Date (Date_parse (demo_rt avail 201 demo_link)) (Some ?s)"
     "new_Date (Date_parse (demo_rt avail 201 demo_link)) (Some ?ei)
        = new_Date (Date_parse (demo_rt avail 201 demo_link)) (Some ?e)" for avail
    by code_simp+
  note m = hostHasExactSlot_exact_match [OF res demo_toISO rt]
  have a1: "event_type_available_times (demo_rt mixed_times 201 demo_link)
        (env (demo_rt mixed_times 201 demo_link) (pat_env bob)) ''et/b'' ?si ?ei ''UTC''
      = Response 200 []
          (Some (Some [AvailableTime (Some ''2025-11-07T10:00:00Z'') (Some ''2025-11-07T11:00:00Z''),
                       AvailableTime (Some ''2025-11-07T15:30:00+05:30'')
                         (Some ''2025-11-07T10:30:00.000Z'')]))"
    by code_simp
  have a2: "event_type_available_times (demo_rt overlapping_times 201 demo_link)
        (env (demo_rt overlapping_times 201 demo_link) (pat_env bob)) ''et/b'' ?si ?ei ''UTC''
      = Response 200 []
          (Some (Some [AvailableTime (Some ''2025-11-07T10:00:00Z'') (Some ''2025-11-07T11:00:00Z''),
                       AvailableTime (Some ''2025-11-07T09:30:00Z'')
                         (Some ''2025-11-07T10:30:00Z'')]))"
    by code_simp
  have d: "new_Date (Date_parse (demo_rt avail 201 demo_link)) (Some ''2025-11-07T10:00:00Z'')
        = Some 1762509600000"
    "new_Date (Date_parse (demo_rt avail 201 demo_link)) (Some ''2025-11-07T10:30:00Z'')
        = Some 1762511400000"
    "new_Date (Date_parse (demo_rt avail 201 demo_link)) (Some ''2025-11-07T11:00:00Z'')
        = Some 1762513200000"
    "new_Date (Date_parse (demo_rt avail 201 demo_link)) (Some ''2025-11-07T09:30:00Z'')
        = Some 1762507800000"
    "new_Date (Date_parse (demo_rt avail 201 demo_link)) (Some ''2025-11-07T15:30:00+05:30'')
        = Some 1762509600000"
    "new_Date (Date_parse (demo_rt avail 201 demo_link)) (Some ''2025-11-07T10:30:00.000Z'')
        = Some 1762511400000" for avail
    by code_simp+
  have k: "ok 200" by (simp add: ok_def)
  from m [of mixed_times] a1 k d
  have 1: "fst (hostHasExactSlot (demo_rt mixed_times 201 demo_link) bob ?s ?e fresh) = Inr True"
    by auto
  from m [of overlapping_times] a2 k d
  have 2: "fst (hostHasExactSlot (demo_rt overlapping_times 201 demo_link) bob ?s ?e fresh)
      = Inr False"
    by auto
  from 1 2 show ?thesis by blast
qed

section \<open>Properties of the window normalization\<close>

text \<open>
  Claim C7. With the clock at least a minute before the last time value, two parseable
  bounds give \<open>clampedStart = max rawStart (now + 1 minute)\<close> and
  \<open>clampedEnd = min rawEnd (clampedStart + 7 days)\<close>; the route answers 400 exactly when
  a bound does not parse or \<open>clampedEnd \<le> clampedStart\<close>, and otherwise passes on the
  two instants in canonical form.
\<close>

theorem clamp_window_normalizes:
  assumes "\<bar>now + 60000\<bar> \<le> max_time"
  shows "(case (new_Date (Date_parse rt) start, new_Date (Date_parse rt) finish) of
            (Some rawStart, Some rawEnd) \<Rightarrow>
              (let clampedStart = max rawStart (now + 60000);
                   clampedEnd = min rawEnd (clampedStart + 7 * 24 * 60 * 60 * 1000)
               in if clampedEnd \<le> clampedStart
                  then clamp_window rt now start finish
                         = Inl (400, ErrorText ''End must be after start and within 7 days'')
                       \<and> fst (api_slots rt roster now start finish timezone w) = 400
                  else (\<exists>startISO endISO.
                          clamp_window rt now start finish = Inr (startISO, endISO)
                          \<and> toISOString (Some clampedStart) = Inr startISO
                          \<and> toISOString (Some clampedEnd) = Inr endISO)
                       \<and> fst (api_slots rt roster now start finish timezone w) = 200)
          | _ \<Rightarrow> clamp_window rt now start finish
                  = Inl (400, ErrorText ''Invalid start or end (must be ISO 8601)'')
                \<and> fst (api_slots rt roster now start finish timezone w) = 400)"
proof (cases "new_Date (Date_parse rt) start")
  case None
  then show ?thesis by (simp add: clamp_window_def api_slots_def)
next
  case (Some rs)
  note rs = this
  show ?thesis
  proof (cases "new_Date (Date_parse rt) finish")
    case None
    with rs show ?thesis by (simp add: clamp_window_def api_slots_def)
  next
    case (Some re)
    from new_Date_bounds [OF rs] new_Date_bounds [OF Some]
    have b: "\<bar>rs\<bar> \<le> max_time" "\<bar>re\<bar> \<le> max_time" by simp_all
    define cs where "cs = max rs (now + 60000)"
    define ce where "ce = min re (cs + 7 * 24 * 60 * 60 * 1000)"
    obtain a where a: "toISOString (Some cs) = Inr a"
      using toISOString_Some by blast
    obtain c where c: "toISOString (Some ce) = Inr c"
      using toISOString_Some by blast
    have ms: "TimeClip (now + 60000) = Some (now + 60000)"
      using assms by (simp add: TimeClip_def)
    have 1: "(if date_less (Some rs) (Some (now + 60000)) then Some (now + 60000) else Some rs)
        = Some cs"
      by (simp add: date_less_def max_def cs_def)
    have "cs \<le> max_time" "- max_time \<le> cs"
      using b assms by (auto simp: cs_def)
    then have 2: "(if date_less (TimeClip (cs + 7 * 24 * 60 * 60 * 1000)) (Some re)
               then TimeClip (cs + 7 * 24 * 60 * 60 * 1000) else Some re) = Some ce"
      using b by (auto simp: date_less_def TimeClip_def min_def ce_def max_time_def)
    have "clamp_window rt now start finish =
        (if date_le (Some ce) (Some cs)
         then Inl (400, ErrorText ''End must be after start and within 7 days'')
         else Inr (a, c))"
      unfolding clamp_window_def Let_def rs Some ms 1 option.case 2 a c sum.case
      by simp
    then show ?thesis
      using rs Some a c by (auto simp add: date_le_def Let_def cs_def ce_def api_slots_def)
  qed
qed

theorem clamp_window_normalizes_witness:
  "\<bar>1762500000000 + 60000\<bar> \<le> max_time
   \<and> clamp_window (demo_rt demo_times 201 demo_link) 1762500000000
        (Some ''2025-11-01T00:00:00Z'') (Some ''2025-12-01T00:00:00Z'')
       = Inr (''2025-11-07T07:21:00.000Z'', ''2025-11-14T07:21:00.000Z'')
   \<and> clamp_window (demo_rt demo_times 201 demo_link) 1762500000000
        (Some ''2025-11-01T00:00:00Z'') (Some ''2025-11-07T07:00:00Z'')
       = Inl (400, ErrorText ''End must be after start and within 7 days'')
   \<and> clamp_window (demo_rt demo_times 201 demo_link) 1762500000000
        (Some ''tomorrow'') (Some ''2025-11-07T07:00:00Z'')
       = Inl (400, ErrorText ''Invalid start or end (must be ISO 8601)'')"
proof -
  let ?rt = "demo_rt demo_times 201 demo_link"
  have n: "\<bar>1762500000000 + 60000\<bar> \<le> max_time" by (simp add: max_time_def)
  have p: "new_Date (Date_parse ?rt) (Some ''2025-11-01T00:00:00Z'') = Some 1761955200000"
    "new_Date (Date_parse ?rt) (Some ''2025-12-01T00:00:00Z'') = Some 1764547200000"
    "new_Date (Date_parse ?rt) (Some ''2025-11-07T07:00:00Z'') = Some 1762498800000"
    "new_Date (Date_parse ?rt) (Some ''tomorrow'') = None"
    by code_simp+
  have i: "toISOString (Some 1762500060000) = Inr ''2025-11-07T07:21:00.000Z''"
    "toISOString (Some 1763104860000) = Inr ''2025-11-14T07:21:00.000Z''"
    by code_simp+
  from clamp_window_normalizes [OF n, of ?rt "Some ''2025-11-01T00:00:00Z''"
      "Some ''2025-12-01T00:00:00Z''"] p i
  have 1: "clamp_window ?rt 1762500000000 (Some ''2025-11-01T00:00:00Z'')
      (Some ''2025-12-01T00:00:00Z'')
      = Inr (''2025-11-07T07:21:00.000Z'', ''2025-11-14T07:21:00.000Z'')"
    by (auto simp: Let_def)
  from clamp_window_normalizes [OF n, of ?rt "Some ''2025-11-01T00:00:00Z''"
      "Some ''2025-11-07T07:00:00Z''"] p
  have 2: "clamp_window ?rt 1762500000000 (Some ''2025-11-01T00:00:00Z'')
      (Some ''2025-11-07T07:00:00Z'')
      = Inl (400, ErrorText ''End must be after start and within 7 days'')"
    by (auto simp: Let_def)
  from clamp_window_normalizes [OF n, of ?rt "Some ''tomorrow''" "Some ''2025-11-07T07:00:00Z''"] p
  have 3: "clamp_window ?rt 1762500000000 (Some ''tomorrow'') (Some ''2025-11-07T07:00:00Z'')
      = Inl (400, ErrorText ''Invalid start or end (must be ISO 8601)'')"
    by (auto simp: Let_def)
  from n 1 2 3 show ?thesis by blast
qed

section \<open>Properties of the aggregator\<close>

lemma digit_mem: "digit d \<in> set ''0123456789''"
proof -
  have "nat (d mod 10) < length ''0123456789''" by simp
  then show ?thesis unfolding digit_def by (rule nth_mem)
qed

lemma digit_not_underscore: "digit d \<noteq> CHR ''_''"
  using digit_mem [of d] by auto

lemma pad_no_underscore:
  "CHR ''_'' \<notin> set (pad2 n)" "CHR ''_'' \<notin> set (pad3 n)"
  "CHR ''_'' \<notin> set (pad4 n)" "CHR ''_'' \<notin> set (pad6 n)"
  using digit_not_underscore [symmetric] by (simp_all add: pad2_def pad3_def pad4_def pad6_def)

lemma year_string_no_underscore: "CHR ''_'' \<notin> set (year_string y)"
  by (simp add: year_string_def pad_no_underscore)

lemma toISOString_no_underscore:
  assumes "toISOString d = Inr s"
  shows "CHR ''_'' \<notin> set s"
proof (cases d)
  case None
  with assms show ?thesis by (simp add: toISOString_def)
next
  case (Some t)
  obtain y m dd where c: "civil_from_days (t div 86400000) = (y, m, dd)"
    by (cases "civil_from_days (t div 86400000)") auto
  from assms Some c have "s = year_string y @ ''-'' @ pad2 m @ ''-'' @ pad2 dd @ ''T''
       @ pad2 (t mod 86400000 div 3600000) @ '':'' @ pad2 (t mod 86400000 div 60000 mod 60) @ '':''
       @ pad2 (t mod 86400000 div 1000 mod 60) @ ''.'' @ pad3 (t mod 86400000 mod 1000) @ ''Z''"
    by (simp add: toISOString_def Let_def)
  then show ?thesis
    by (simp add: pad_no_underscore year_string_no_underscore)
qed

lemma key_suffix_unique:
  assumes "CHR ''_'' \<notin> set e1" "CHR ''_'' \<notin> set e2"
    and "s1 @ ''__'' @ e1 = s2 @ ''__'' @ e2"
  shows "s1 = s2 \<and> e1 = e2"
proof -
  have r: "takeWhile (\<lambda>c. c \<noteq> CHR ''_'') (rev (s @ ''__'' @ e)) = rev e"
    if "CHR ''_'' \<notin> set e" for s e :: string
  proof -
    from that have "\<forall>x\<in>set (rev e). x \<noteq> CHR ''_''" by auto
    then have "takeWhile (\<lambda>c. c \<noteq> CHR ''_'') (rev e @ ''__'' @ rev s) = rev e"
      by (simp add: takeWhile_tail takeWhile_eq_all_conv)
    then show ?thesis by simp
  qed
  have "rev e1 = rev e2"
    using r [OF assms(1), of s1] r [OF assms(2), of s2]
      arg_cong [OF assms(3), of "\<lambda>x. takeWhile (\<lambda>c. c \<noteq> CHR ''_'') (rev x)"]
    by simp
  then have "e1 = e2" by simp
  with assms(3) show ?thesis by simp
qed

lemma merge_results_put_all:
  "merge_results results b = put_all (concat (map slots_of results)) b"
proof (induction results arbitrary: b)
  case Nil
  then show ?case by (simp add: merge_results_def put_all_def)
next
  case (Cons r rs)
  have "merge_results (r # rs) b = merge_results rs (put_all (slots_of r) b)"
    by (cases r) (simp_all add: merge_results_def put_all_def slots_of_def)
  then show ?case by (simp add: Cons.IH put_all_def)
qed

lemma put_all_snoc: "put_all (ss @ [s]) b = bucket_put s (put_all ss b)"
  by (simp add: put_all_def)

lemma keys_bucket_put:
  "map fst (bucket_put s b) =
     (if slot_key s \<in> fst ` set b then map fst b else map fst b @ [slot_key s])"
  by (induction s b rule: bucket_put.induct) (auto simp: image_iff)

lemma distinct_bucket_put: "distinct (map fst b) \<Longrightarrow> distinct (map fst (bucket_put s b))"
  by (simp add: keys_bucket_put)

lemma map_of_bucket_put:
  "map_of (bucket_put s b) k =
     (if k = slot_key s
      then Some (case map_of b k of
                   None \<Rightarrow> \<lparr>start_time = hs_start_time s, end_time = hs_end_time s,
                             hosts = [host_ref s]\<rparr>
                 | Some e \<Rightarrow> e\<lparr>hosts := hosts e @ [host_ref s]\<rparr>)
      else map_of b k)"
  by (induction b) (auto simp: host_ref_def)

lemma distinct_put_all: "distinct (map fst (put_all ss []))"
  by (induction ss rule: rev_induct) (simp_all add: put_all_snoc distinct_bucket_put, simp add: put_all_def)

lemma map_of_put_all:
  "map_of (put_all ss []) k =
     (case filter (\<lambda>s. slot_key s = k) ss of
        [] \<Rightarrow> None
      | s0 # rest \<Rightarrow>
          Some \<lparr>start_time = hs_start_time s0, end_time = hs_end_time s0,
                hosts = map host_ref (filter (\<lambda>s. slot_key s = k) ss)\<rparr>)"
proof (induction ss rule: rev_induct)
  case Nil
  then show ?case by (simp add: put_all_def)
next
  case (snoc s ss)
  then show ?case
    by (auto simp: put_all_snoc map_of_bucket_put split: list.splits)
qed

lemma map_slots_props:
  "map_slots rt h raw = Inr sl \<Longrightarrow>
     map (\<lambda>x. Some (hs_start_time x)) sl = map av_start_time raw
     \<and> (\<forall>x\<in>set sl. addMinutesISO rt (Some (hs_start_time x)) 30 = Inr (hs_end_time x)
           \<and> hs_host_id x = host_id h \<and> hs_host_name x = display_name h)"
proof (induction raw arbitrary: sl)
  case Nil
  then show ?case by auto
next
  case (Cons s ss)
  then show ?case
    by (auto split: sum.splits option.splits)
qed

lemma host_task_slots:
  assumes "fst (host_task rt start end timezone h w) = Inr sl"
  shows "\<exists>raw. map_slots rt h raw = Inr sl"
  using assms
  by (auto simp: host_task_def Let_def split: if_splits prod.splits sum.splits)

lemma fulfilled_slots_mem:
  "x \<in> set (fulfilled_slots rt roster start end timezone w) \<longleftrightarrow>
     (\<exists>h\<in>set roster. \<exists>sl. fst (host_task rt start end timezone h w) = Inr sl \<and> x \<in> set sl)"
proof -
  have "x \<in> set (slots_of r) \<longleftrightarrow> (\<exists>sl. r = Inr sl \<and> x \<in> set sl)" for r
    by (cases r) (simp_all add: slots_of_def)
  then show ?thesis
    by (simp add: fulfilled_slots_def)
qed

lemma fulfilled_slots_end:
  assumes "x \<in> set (fulfilled_slots rt roster start end timezone w)"
  shows "addMinutesISO rt (Some (hs_start_time x)) 30 = Inr (hs_end_time x)"
proof -
  from assms obtain h sl where "fst (host_task rt start end timezone h w) = Inr sl" "x \<in> set sl"
    by (auto simp: fulfilled_slots_mem)
  moreover from this obtain raw where "map_slots rt h raw = Inr sl"
    using host_task_slots by blast
  ultimately show ?thesis
    using map_slots_props [of rt h raw sl] by simp
qed

lemma addMinutesISO_no_underscore: "addMinutesISO rt s m = Inr e \<Longrightarrow> CHR ''_'' \<notin> set e"
  unfolding addMinutesISO_def by (rule toISOString_no_underscore)

lemma slot_key_eq_iff:
  assumes "addMinutesISO rt (Some (hs_start_time x)) 30 = Inr (hs_end_time x)"
    and "addMinutesISO rt (Some (hs_start_time y)) 30 = Inr (hs_end_time y)"
  shows "slot_key x = slot_key y \<longleftrightarrow> hs_start_time x = hs_start_time y"
    and "slot_key x = slot_key y \<longleftrightarrow>
           hs_start_time x = hs_start_time y \<and> hs_end_time x = hs_end_time y"
proof -
  have u: "CHR ''_'' \<notin> set (hs_end_time x)" "CHR ''_'' \<notin> set (hs_end_time y)"
    by (rule addMinutesISO_no_underscore [OF assms(1)])
      (rule addMinutesISO_no_underscore [OF assms(2)])
  have k: "slot_key x = slot_key y \<Longrightarrow>
      hs_start_time x = hs_start_time y \<and> hs_end_time x = hs_end_time y"
    unfolding slot_key_def by (rule key_suffix_unique [OF u])
  have e: "hs_end_time x = hs_end_time y" if h: "hs_start_time x = hs_start_time y"
  proof -
    have "Inr (hs_end_time x) = addMinutesISO rt (Some (hs_start_time x)) 30"
      by (rule assms(1) [symmetric])
    also have "\<dots> = addMinutesISO rt (Some (hs_start_time y)) 30"
      by (simp only: h)
    also have "\<dots> = Inr (hs_end_time y)"
      by (rule assms(2))
    finally show ?thesis by (simp only: sum.inject)
  qed
  show "slot_key x = slot_key y \<longleftrightarrow> hs_start_time x = hs_start_time y"
  proof
    assume "slot_key x = slot_key y"
    then show "hs_start_time x = hs_start_time y" using k by blast
  next
    assume h: "hs_start_time x = hs_start_time y"
    then have "hs_end_time x = hs_end_time y" by (rule e)
    with h show "slot_key x = slot_key y" by (simp only: slot_key_def)
  qed
  show "slot_key x = slot_key y \<longleftrightarrow>
           hs_start_time x = hs_start_time y \<and> hs_end_time x = hs_end_time y"
  proof
    assume "slot_key x = slot_key y"
    then show "hs_start_time x = hs_start_time y \<and> hs_end_time x = hs_end_time y" by (rule k)
  next
    assume "hs_start_time x = hs_start_time y \<and> hs_end_time x = hs_end_time y"
    then have "hs_start_time x = hs_start_time y" "hs_end_time x = hs_end_time y" by blast+
    then show "slot_key x = slot_key y" by (simp only: slot_key_def)
  qed
qed

lemma distinct_map_insert_by:
  "distinct (map f (insert_by cmp x ys)) \<longleftrightarrow> f x \<notin> f ` set ys \<and> distinct (map f ys)"
  by (induction ys) (auto simp: set_insert_by)

lemma distinct_map_js_sort: "distinct (map f (js_sort cmp xs)) \<longleftrightarrow> distinct (map f xs)"
  by (induction xs) (auto simp: js_sort_Cons js_sort_Nil distinct_map_insert_by set_js_sort)

lemma sorted_insert_by:
  assumes total: "\<And>a b. \<not> cmp a b \<le> 0 \<Longrightarrow> cmp b a \<le> 0"
    and trans: "\<And>a b c. cmp a b \<le> 0 \<Longrightarrow> cmp b c \<le> 0 \<Longrightarrow> cmp a c \<le> 0"
  shows "sorted_wrt (\<lambda>a b. cmp a b \<le> 0) ys \<Longrightarrow>
         sorted_wrt (\<lambda>a b. cmp a b \<le> (0::int)) (insert_by cmp x ys)"
proof (induction ys)
  case Nil
  then show ?case by simp
next
  case (Cons y ys)
  show ?case
  proof (cases "cmp x y \<le> 0")
    case True
    with Cons.prems show ?thesis
      by (auto intro: trans)
  next
    case False
    then have "cmp y x \<le> 0" by (rule total)
    with False Cons show ?thesis
      by (auto simp: set_insert_by)
  qed
qed

lemma sorted_js_sort:
  assumes "\<And>a b. \<not> cmp a b \<le> 0 \<Longrightarrow> cmp b a \<le> 0"
    and "\<And>a b c. cmp a b \<le> 0 \<Longrightarrow> cmp b c \<le> 0 \<Longrightarrow> cmp a c \<le> 0"
  shows "sorted_wrt (\<lambda>a b. cmp a b \<le> (0::int)) (js_sort cmp xs)"
  by (induction xs) (simp_all add: js_sort_Nil js_sort_Cons sorted_insert_by [OF assms])

lemma getUnionSlots_eq:
  "getUnionSlots rt roster start end timezone w =
     js_sort (\<lambda>a b. localeCompare rt (start_time a) (start_time b))
       (map snd (put_all (fulfilled_slots rt roster start end timezone w) []))"
  by (simp add: getUnionSlots_def Let_def merge_results_put_all fulfilled_slots_def comp_def)

lemma bucket_entry:
  assumes "(k, e) \<in> set (put_all ss [])"
  shows "\<exists>s0 rest. filter (\<lambda>s. slot_key s = k) ss = s0 # rest
     \<and> start_time e = hs_start_time s0 \<and> end_time e = hs_end_time s0
     \<and> hosts e = map host_ref (filter (\<lambda>s. slot_key s = k) ss)"
proof -
  from assms have "map_of (put_all ss []) k = Some e"
    by (simp add: distinct_put_all)
  then show ?thesis
    by (auto simp: map_of_put_all split: list.splits)
qed

lemma bucket_complete:
  assumes "x \<in> set ss"
  shows "\<exists>e. (slot_key x, e) \<in> set (put_all ss [])"
proof -
  from assms have "filter (\<lambda>s. slot_key s = slot_key x) ss \<noteq> []"
    by (auto simp: filter_empty_conv)
  then have "map_of (put_all ss []) (slot_key x) \<noteq> None"
    by (auto simp: map_of_put_all split: list.splits)
  then show ?thesis
    by (auto dest: map_of_SomeD)
qed

lemma fulfilled_slots_filter:
  "fulfilled_slots rt (filter (fulfilled rt start end timezone w) roster) start end timezone w
     = fulfilled_slots rt roster start end timezone w"
  by (induction roster) (auto simp: fulfilled_slots_def fulfilled_def slots_of_def split: sum.splits)

lemma bucket_entry_slots:
  assumes "(k, e) \<in> set (put_all ss [])"
    and wf: "\<And>x. x \<in> set ss \<Longrightarrow> addMinutesISO rt (Some (hs_start_time x)) 30 = Inr (hs_end_time x)"
  shows "k = start_time e @ ''__'' @ end_time e"
    and "hosts e = map host_ref
           (filter (\<lambda>s. hs_start_time s = start_time e \<and> hs_end_time s = end_time e) ss)"
    and "hosts e \<noteq> []"
    and "\<exists>x\<in>set ss. start_time e = hs_start_time x \<and> end_time e = hs_end_time x"
proof -
  from bucket_entry [OF assms(1)] obtain s0 rest where
    f: "filter (\<lambda>s. slot_key s = k) ss = s0 # rest" and
    se: "start_time e = hs_start_time s0" "end_time e = hs_end_time s0" and
    h: "hosts e = map host_ref (filter (\<lambda>s. slot_key s = k) ss)"
    by blast
  from f have "s0 \<in> set (filter (\<lambda>s. slot_key s = k) ss)" by simp
  then have s0: "s0 \<in> set ss" "slot_key s0 = k" by simp_all
  from s0(2) se show "k = start_time e @ ''__'' @ end_time e"
    by (simp add: slot_key_def)
  have "filter (\<lambda>s. slot_key s = k) ss
      = filter (\<lambda>s. hs_start_time s = start_time e \<and> hs_end_time s = end_time e) ss"
  proof (rule filter_cong [OF refl])
    fix x assume "x \<in> set ss"
    from slot_key_eq_iff(2) [OF wf [OF this] wf [OF s0(1)]] s0(2) se
    show "(slot_key x = k) = (hs_start_time x = start_time e \<and> hs_end_time x = end_time e)"
      by simp
  qed
  with h show "hosts e = map host_ref
           (filter (\<lambda>s. hs_start_time s = start_time e \<and> hs_end_time s = end_time e) ss)"
    by simp
  from h f show "hosts e \<noteq> []" by simp
  from s0(1) se show "\<exists>x\<in>set ss. start_time e = hs_start_time x \<and> end_time e = hs_end_time x"
    by blast
qed

lemma distinct_keys_pairs:
  "distinct (map (\<lambda>x. f x @ ''__'' @ g x) xs) \<Longrightarrow> distinct (map (\<lambda>x. (f x, g x)) xs)"
  by (induction xs) auto

lemma distinct_bucket_pairs:
  assumes wf: "\<And>x. x \<in> set ss \<Longrightarrow> addMinutesISO rt (Some (hs_start_time x)) 30 = Inr (hs_end_time x)"
  shows "distinct (map (\<lambda>e. (start_time e, end_time e)) (map snd (put_all ss [])))"
proof -
  let ?b = "put_all ss []"
  have "map fst ?b = map (\<lambda>x. start_time (snd x) @ ''__'' @ end_time (snd x)) ?b"
  proof (rule map_cong [OF refl])
    fix x assume "x \<in> set ?b"
    then have "(fst x, snd x) \<in> set ?b" by simp
    then show "fst x = start_time (snd x) @ ''__'' @ end_time (snd x)"
      by (rule bucket_entry_slots(1) [OF _ wf])
  qed
  then have "distinct (map (\<lambda>x. start_time (snd x) @ ''__'' @ end_time (snd x)) ?b)"
    using distinct_put_all [of ss] by (simp only:)
  then have "distinct (map (\<lambda>x. (start_time (snd x), end_time (snd x))) ?b)"
    by (rule distinct_keys_pairs)
  then show ?thesis
    by (simp add: comp_def)
qed

lemma getUnionSlots_set:
  "set (getUnionSlots rt roster start end timezone w)
     = snd ` set (put_all (fulfilled_slots rt roster start end timezone w) [])"
  by (simp add: getUnionSlots_eq set_js_sort)

lemma host_task_answer:
  assumes "fst (host_task rt start end timezone h w) = Inr sl"
  shows "\<exists>et status text c.
           event_type_available_times rt (env rt (pat_env h)) et start end
             (case timezone of None \<Rightarrow> ''UTC'' | Some z \<Rightarrow> if z = [] then ''UTC'' else z)
             = Response status text (Some c)
           \<and> ok status
           \<and> map_slots rt h (case c of None \<Rightarrow> [] | Some l \<Rightarrow> l) = Inr sl"
  using assms
  by (auto simp: host_task_def calendly_def Let_def
      split: if_splits prod.splits sum.splits fetched.splits option.splits)

lemma fulfilled_slots_host:
  assumes "fst (host_task rt start end timezone h w) = Inr sl" "x \<in> set sl"
  shows "host_ref x = (host_id h, display_name h)"
proof -
  from host_task_slots [OF assms(1)] obtain raw where "map_slots rt h raw = Inr sl" by blast
  from map_slots_props [OF this] assms(2) show ?thesis by (simp add: host_ref_def)
qed

lemma getUnionSlots_entry:
  assumes "e \<in> set (getUnionSlots rt roster start end timezone w)"
  shows "hosts e \<noteq> []"
    and "hosts e = map host_ref
           (filter (\<lambda>s. hs_start_time s = start_time e \<and> hs_end_time s = end_time e)
              (fulfilled_slots rt roster start end timezone w))"
    and "\<exists>x\<in>set (fulfilled_slots rt roster start end timezone w).
           start_time e = hs_start_time x \<and> end_time e = hs_end_time x"
proof -
  let ?ss = "fulfilled_slots rt roster start end timezone w"
  from assms obtain k where k: "(k, e) \<in> set (put_all ?ss [])"
    by (auto simp: getUnionSlots_set)
  have wf: "\<And>x. x \<in> set ?ss \<Longrightarrow> addMinutesISO rt (Some (hs_start_time x)) 30 = Inr (hs_end_time x)"
    by (rule fulfilled_slots_end)
  show "hosts e \<noteq> []" by (rule bucket_entry_slots(3) [OF k wf])
  show "hosts e = map host_ref
           (filter (\<lambda>s. hs_start_time s = start_time e \<and> hs_end_time s = end_time e) ?ss)"
    by (rule bucket_entry_slots(2) [OF k wf])
  show "\<exists>x\<in>set ?ss. start_time e = hs_start_time x \<and> end_time e = hs_end_time x"
    by (rule bucket_entry_slots(4) [OF k wf])
qed

lemma getUnionSlots_holds:
  assumes "x \<in> set (fulfilled_slots rt roster start end timezone w)"
  shows "\<exists>en\<in>set (getUnionSlots rt roster start end timezone w).
           start_time en = hs_start_time x \<and> end_time en = hs_end_time x
           \<and> host_ref x \<in> set (hosts en)"
proof -
  let ?ss = "fulfilled_slots rt roster start end timezone w"
  have wf: "\<And>x. x \<in> set ?ss \<Longrightarrow> addMinutesISO rt (Some (hs_start_time x)) 30 = Inr (hs_end_time x)"
    by (rule fulfilled_slots_end)
  from bucket_complete [OF assms] obtain e where e: "(slot_key x, e) \<in> set (put_all ?ss [])"
    by blast
  from bucket_entry_slots(1) [OF e wf]
  have "hs_start_time x @ ''__'' @ hs_end_time x = start_time e @ ''__'' @ end_time e"
    by (simp add: slot_key_def)
  moreover have "CHR ''_'' \<notin> set (hs_end_time x)"
    using wf [OF assms] by (rule addMinutesISO_no_underscore)
  moreover from bucket_entry_slots(4) [OF e wf] obtain y where
    "y \<in> set ?ss" "start_time e = hs_start_time y" "end_time e = hs_end_time y" by blast
  then have "CHR ''_'' \<notin> set (end_time e)"
    using wf [of y] addMinutesISO_no_underscore by metis
  ultimately have se: "hs_start_time x = start_time e \<and> hs_end_time x = end_time e"
    by (rule key_suffix_unique [rotated 2])
  with bucket_entry_slots(2) [OF e wf] assms have "host_ref x \<in> set (hosts e)"
    by simp
  moreover from e have "e \<in> set (getUnionSlots rt roster start end timezone w)"
    by (force simp: getUnionSlots_set)
  ultimately show ?thesis using se by auto
qed

lemma code_unit_compare_total: "\<not> code_unit_compare a b \<le> 0 \<Longrightarrow> code_unit_compare b a \<le> 0"
  by (auto simp: code_unit_compare_def split: if_splits)

lemma code_unit_compare_trans:
  "code_unit_compare a b \<le> 0 \<Longrightarrow> code_unit_compare b c \<le> 0 \<Longrightarrow> code_unit_compare a c \<le> 0"
  by (auto simp: code_unit_compare_def split: if_splits)

lemma demo_localeCompare: "localeCompare (demo_rt avail status link) = code_unit_compare"
  by (simp add: demo_rt_def)

lemma distinct_same_key_short:
  assumes "distinct (map g ys)" "\<forall>y\<in>set ys. g y = a"
  shows "length ys \<le> 1"
proof (cases ys)
  case Nil
  then show ?thesis by simp
next
  case (Cons y1 ys1)
  show ?thesis
  proof (cases ys1)
    case Nil
    with Cons show ?thesis by simp
  next
    case (Cons y2 ys2)
    with \<open>ys = y1 # ys1\<close> assms show ?thesis by auto
  qed
qed

lemma distinct_map_short: "length ys \<le> 1 \<Longrightarrow> distinct (map k ys)"
  by (cases ys) auto

lemma distinct_host_ids:
  assumes "distinct (map host_id roster)"
    and "\<forall>h\<in>set roster. distinct (map hs_start_time (f h)) \<and> (\<forall>x\<in>set (f h). hs_host_id x = host_id h)"
  shows "distinct (map hs_host_id
           (filter (\<lambda>s. hs_start_time s = a \<and> hs_end_time s = b) (concat (map f roster))))"
  using assms
proof (induction roster)
  case Nil
  then show ?case by simp
next
  case (Cons h hs)
  let ?P = "\<lambda>s. hs_start_time s = a \<and> hs_end_time s = b"
  have "distinct (map hs_start_time (filter ?P (f h)))"
    using Cons.prems(2) by (simp add: distinct_map_filter)
  moreover have "\<forall>y\<in>set (filter ?P (f h)). hs_start_time y = a" by simp
  ultimately have "length (filter ?P (f h)) \<le> 1"
    by (rule distinct_same_key_short)
  then have 1: "distinct (map hs_host_id (filter ?P (f h)))"
    by (rule distinct_map_short)
  have 2: "distinct (map hs_host_id (filter ?P (concat (map f hs))))"
    using Cons by simp
  have 3: "hs_host_id x \<noteq> hs_host_id y"
    if "x \<in> set (f h)" "y \<in> set (concat (map f hs))" for x y
  proof -
    from that(2) obtain h' where h': "h' \<in> set hs" "y \<in> set (f h')" by auto
    with Cons.prems(2) that(1) have "hs_host_id x = host_id h" "hs_host_id y = host_id h'"
      by auto
    moreover from Cons.prems(1) h'(1) have "host_id h \<noteq> host_id h'" by auto
    ultimately show ?thesis by simp
  qed
  from 1 2 3 show ?case by auto
qed

lemma host_task_slot_ids:
  assumes "x \<in> set (slots_of (fst (host_task rt start end timezone h w)))"
  shows "hs_host_id x = host_id h"
proof -
  from assms obtain sl where sl: "fst (host_task rt start end timezone h w) = Inr sl" "x \<in> set sl"
    by (cases "fst (host_task rt start end timezone h w)") (auto simp: slots_of_def)
  from fulfilled_slots_host [OF this] show ?thesis by (simp add: host_ref_def)
qed

lemma getUnionSlots_distinct_hosts:
  assumes "distinct (map host_id roster)"
    and "\<forall>h\<in>set roster. \<forall>sl. fst (host_task rt start end timezone h w) = Inr sl
           \<longrightarrow> distinct (map hs_start_time sl)"
    and "e \<in> set (getUnionSlots rt roster start end timezone w)"
  shows "distinct (map fst (hosts e))"
proof -
  let ?f = "\<lambda>h. slots_of (fst (host_task rt start end timezone h w))"
  have d: "\<forall>h\<in>set roster. distinct (map hs_start_time (?f h)) \<and> (\<forall>x\<in>set (?f h). hs_host_id x = host_id h)"
  proof (intro ballI conjI)
    fix h assume "h \<in> set roster"
    with assms(2) show "distinct (map hs_start_time (?f h))"
      by (cases "fst (host_task rt start end timezone h w)") (auto simp: slots_of_def)
  next
    fix h x assume "x \<in> set (?f h)"
    then show "hs_host_id x = host_id h" by (rule host_task_slot_ids)
  qed
  have "map fst (hosts e) = map hs_host_id
      (filter (\<lambda>s. hs_start_time s = start_time e \<and> hs_end_time s = end_time e)
         (fulfilled_slots rt roster start end timezone w))"
    by (simp add: getUnionSlots_entry(2) [OF assms(3)] comp_def host_ref_def)
  also have "distinct \<dots>"
    unfolding fulfilled_slots_def by (rule distinct_host_ids [OF assms(1) d])
  finally show ?thesis .
qed

text \<open>
  Against claim C5 as stated: the merge pushes a host onto an entry once per slot and
  never looks at the host ids already there. A host whose availability answer lists the
  same \<open>start_time\<close> twice is listed twice in that entry.
\<close>

theorem getUnionSlots_host_listed_twice:
  "getUnionSlots (demo_rt dup_times 201 demo_link) [bob] day_start day_end (Some ''Asia/Kolkata'')
     fresh
   = [\<lparr>start_time = ''2025-11-07T10:00:00Z'', end_time = ''2025-11-07T10:30:00.000Z'',
       hosts = [(''b'', ''Bob''), (''b'', ''Bob'')]\<rparr>]"
  by code_simp

text \<open>
  Claim C5, amended. In the result no two entries have the same pair of \<open>start_time\<close>
  and \<open>end_time\<close> strings, and the \<open>hosts\<close> of an entry are, in roster order, one
  \<open>{ id, name }\<close> for each slot with that start and end reported by a host whose task was
  fulfilled: two hosts reporting the same start give one entry listing both, and a host is
  listed as many times as it reported that start. No host id is listed twice in an entry
  when the host ids of the roster are distinct and no fulfilled host reports a start
  twice.
\<close>

theorem getUnionSlots_merges_by_start_end:
  "distinct (map (\<lambda>e. (start_time e, end_time e)) (getUnionSlots rt roster start end timezone w))
   \<and> (\<forall>e\<in>set (getUnionSlots rt roster start end timezone w).
         hosts e \<noteq> []
         \<and> hosts e = map host_ref
             (filter (\<lambda>s. hs_start_time s = start_time e \<and> hs_end_time s = end_time e)
                (fulfilled_slots rt roster start end timezone w)))
   \<and> (distinct (map host_id roster)
        \<and> (\<forall>h\<in>set roster. \<forall>sl. fst (host_task rt start end timezone h w) = Inr sl
               \<longrightarrow> distinct (map hs_start_time sl))
       \<longrightarrow> (\<forall>e\<in>set (getUnionSlots rt roster start end timezone w).
              distinct (map fst (hosts e))))"
proof -
  have "distinct (map (\<lambda>e. (start_time e, end_time e))
      (map snd (put_all (fulfilled_slots rt roster start end timezone w) [])))"
    by (rule distinct_bucket_pairs) (rule fulfilled_slots_end)
  then have "distinct (map (\<lambda>e. (start_time e, end_time e))
      (getUnionSlots rt roster start end timezone w))"
    by (simp only: getUnionSlots_eq distinct_map_js_sort)
  moreover have "\<forall>e\<in>set (getUnionSlots rt roster start end timezone w).
         hosts e \<noteq> []
         \<and> hosts e = map host_ref
             (filter (\<lambda>s. hs_start_time s = start_time e \<and> hs_end_time s = end_time e)
                (fulfilled_slots rt roster start end timezone w))"
    using getUnionSlots_entry(1,2) by blast
  moreover have "distinct (map host_id roster)
        \<and> (\<forall>h\<in>set roster. \<forall>sl. fst (host_task rt start end timezone h w) = Inr sl
               \<longrightarrow> distinct (map hs_start_time sl))
       \<longrightarrow> (\<forall>e\<in>set (getUnionSlots rt roster start end timezone w).
              distinct (map fst (hosts e)))"
  proof (intro impI ballI)
    fix e
    assume "distinct (map host_id roster)
        \<and> (\<forall>h\<in>set roster. \<forall>sl. fst (host_task rt start end timezone h w) = Inr sl
               \<longrightarrow> distinct (map hs_start_time sl))"
      and "e \<in> set (getUnionSlots rt roster start end timezone w)"
    then show "distinct (map fst (hosts e))"
      using getUnionSlots_distinct_hosts [of roster rt start "end" timezone w e] by blast
  qed
  ultimately show ?thesis by (intro conjI)
qed

theorem getUnionSlots_merges_by_start_end_witness:
  "getUnionSlots (demo_rt agg_times 201 demo_link) [alice, bob, carol, dave] day_start day_end
     (Some ''Asia/Kolkata'') fresh
   = [\<lparr>start_time = ''2025-11-07T09:00:00Z'', end_time = ''2025-11-07T09:30:00.000Z'',
       hosts = [(''a'', ''Alice'')]\<rparr>,
      \<lparr>start_time = ''2025-11-07T10:00:00Z'', end_time = ''2025-11-07T10:30:00.000Z'',
       hosts = [(''a'', ''Alice''), (''b'', ''Bob'')]\<rparr>]
   \<and> distinct (map (\<lambda>e. (start_time e, end_time e))
        (getUnionSlots (demo_rt agg_times 201 demo_link) [alice, bob, carol, dave] day_start day_end
           (Some ''Asia/Kolkata'') fresh))
   \<and> map host_ref
        (filter (\<lambda>s. hs_start_time s = ''2025-11-07T10:00:00Z''
                   \<and> hs_end_time s = ''2025-11-07T10:30:00.000Z'')
           (fulfilled_slots (demo_rt agg_times 201 demo_link) [alice, bob, carol, dave] day_start
              day_end (Some ''Asia/Kolkata'') fresh))
      = [(''a'', ''Alice''), (''b'', ''Bob'')]"
proof -
  let ?r = "getUnionSlots (demo_rt agg_times 201 demo_link) [alice, bob, carol, dave] day_start
     day_end (Some ''Asia/Kolkata'') fresh"
  let ?e = "\<lparr>start_time = ''2025-11-07T10:00:00Z'', end_time = ''2025-11-07T10:30:00.000Z'',
       hosts = [(''a'', ''Alice''), (''b'', ''Bob'')]\<rparr>"
  have r: "?r = [\<lparr>start_time = ''2025-11-07T09:00:00Z'', end_time = ''2025-11-07T09:30:00.000Z'',
       hosts = [(''a'', ''Alice'')]\<rparr>, ?e]"
    by code_simp
  then have m: "?e \<in> set ?r" by simp
  note t = getUnionSlots_merges_by_start_end [of "demo_rt agg_times 201 demo_link"
      "[alice, bob, carol, dave]" day_start day_end "Some ''Asia/Kolkata''" fresh]
  from t have d: "distinct (map (\<lambda>e. (start_time e, end_time e)) ?r)" by blast
  from t m have "hosts ?e = map host_ref
        (filter (\<lambda>s. hs_start_time s = start_time ?e \<and> hs_end_time s = end_time ?e)
           (fulfilled_slots (demo_rt agg_times 201 demo_link) [alice, bob, carol, dave] day_start
              day_end (Some ''Asia/Kolkata'') fresh))"
    by blast
  then have "map host_ref
        (filter (\<lambda>s. hs_start_time s = ''2025-11-07T10:00:00Z''
                   \<and> hs_end_time s = ''2025-11-07T10:30:00.000Z'')
           (fulfilled_slots (demo_rt agg_times 201 demo_link) [alice, bob, carol, dave] day_start
              day_end (Some ''Asia/Kolkata'') fresh))
      = [(''a'', ''Alice''), (''b'', ''Bob'')]"
    by simp
  with r d show ?thesis by blast
qed

lemma addMinutesISO_None: "addMinutesISO rt None m = Inl (RangeError ''Invalid time value'')"
  by (simp add: addMinutesISO_def new_Date_def toISOString_def)

lemma map_slots_all2: "map_slots rt h c = Inr sl \<Longrightarrow> list_all2 (slot_for rt h) c sl"
proof (induction c arbitrary: sl)
  case Nil
  then show ?case by simp
next
  case (Cons s ss)
  then show ?case
    by (auto simp: slot_for_def split: sum.splits option.splits)
qed

lemma map_slots_total:
  "(\<exists>sl. map_slots rt h c = Inr sl) \<longleftrightarrow> list_all (valid_start rt) c"
proof (induction c)
  case Nil
  then show ?case by simp
next
  case (Cons s ss)
  show ?case
  proof (cases "av_start_time s")
    case None
    then show ?thesis by (simp add: addMinutesISO_None valid_start_def)
  next
    case (Some st)
    with Cons show ?thesis
      by (cases "addMinutesISO rt (Some st) 30"; cases "map_slots rt h ss")
        (auto simp: valid_start_def)
  qed
qed

lemma map_slots_valid: "map_slots rt h c = Inr sl \<Longrightarrow> list_all (valid_start rt) c"
  using map_slots_total by blast

lemma map_slots_ok: "list_all (valid_start rt) c \<Longrightarrow> \<exists>sl. map_slots rt h c = Inr sl"
  using map_slots_total by blast

lemma host_task_entries_Some:
  assumes "host_entries rt start end timezone w h = Some c"
  shows "\<exists>sl. fst (host_task rt start end timezone h w) = Inr sl \<and> list_all2 (slot_for rt h) c sl"
proof -
  from assms have v: "list_all (valid_start rt) c"
    by (auto simp: host_entries_def Let_def
        split: if_splits prod.splits sum.splits fetched.splits option.splits)
  from map_slots_ok [OF v] obtain sl where sl: "map_slots rt h c = Inr sl" by blast
  from assms sl have "fst (host_task rt start end timezone h w) = Inr sl"
    by (auto simp: host_entries_def host_task_def calendly_def Let_def
        split: if_splits prod.splits sum.splits fetched.splits option.splits)
  with map_slots_all2 [OF sl] show ?thesis by blast
qed

lemma host_task_Inr_entries:
  assumes "fst (host_task rt start end timezone h w) = Inr sl"
  shows "\<exists>c. host_entries rt start end timezone w h = Some c \<and> map_slots rt h c = Inr sl"
  using assms
  by (auto simp: host_entries_def host_task_def calendly_def Let_def
      dest: map_slots_valid
      split: if_splits prod.splits sum.splits fetched.splits option.splits)

lemma host_task_entries_None:
  assumes "host_entries rt start end timezone w h = None"
  shows "\<exists>e. fst (host_task rt start end timezone h w) = Inl e"
proof (cases "fst (host_task rt start end timezone h w)")
  case (Inl e)
  then show ?thesis by blast
next
  case (Inr sl)
  from host_task_Inr_entries [OF Inr] assms show ?thesis by simp
qed

lemma fulfilled_iff_entries:
  "fulfilled rt start end timezone w h \<longleftrightarrow> host_entries rt start end timezone w h \<noteq> None"
proof (cases "host_entries rt start end timezone w h")
  case None
  from host_task_entries_None [OF this] show ?thesis
    using None by (auto simp: fulfilled_def)
next
  case (Some c)
  from host_task_entries_Some [OF this] show ?thesis
    using Some by (auto simp: fulfilled_def)
qed

lemma slots_of_entries_None:
  "host_entries rt start end timezone w h = None \<Longrightarrow>
   slots_of (fst (host_task rt start end timezone h w)) = []"
  using host_task_entries_None [of rt start "end" timezone w h] by (auto simp: slots_of_def)

lemma slots_of_entries_Some:
  "host_entries rt start end timezone w h = Some c \<Longrightarrow>
   list_all2 (slot_for rt h) c (slots_of (fst (host_task rt start end timezone h w)))"
  using host_task_entries_Some [of rt start "end" timezone w h c] by (auto simp: slots_of_def)

lemma all2_filter_refs:
  "list_all2 (slot_for rt h) c sl \<Longrightarrow>
   map host_ref (filter (\<lambda>x. hs_start_time x = st) sl)
     = map (\<lambda>s. (host_id h, display_name h)) (filter (\<lambda>s. av_start_time s = Some st) c)"
  by (induction rule: list_all2_induct) (auto simp: slot_for_def host_ref_def)

lemma all2_slot_of_entry:
  "list_all2 (slot_for rt h) c sl \<Longrightarrow> s \<in> set c \<Longrightarrow> \<exists>x\<in>set sl. slot_for rt h s x"
  by (induction rule: list_all2_induct) auto

lemma all2_entry_of_slot:
  "list_all2 (slot_for rt h) c sl \<Longrightarrow> x \<in> set sl \<Longrightarrow> \<exists>s\<in>set c. slot_for rt h s x"
  by (induction rule: list_all2_induct) auto

lemma getUnionSlots_entry_end:
  assumes "e \<in> set (getUnionSlots rt roster start end timezone w)"
  shows "addMinutesISO rt (Some (start_time e)) 30 = Inr (end_time e)"
proof -
  from getUnionSlots_entry(3) [OF assms] obtain x where
    "x \<in> set (fulfilled_slots rt roster start end timezone w)"
    "start_time e = hs_start_time x" "end_time e = hs_end_time x" by blast
  with fulfilled_slots_end [of x rt roster start "end" timezone w] show ?thesis by simp
qed

lemma getUnionSlots_entry_hosts_by_start:
  assumes "e \<in> set (getUnionSlots rt roster start end timezone w)"
  shows "hosts e = map host_ref
           (filter (\<lambda>s. hs_start_time s = start_time e)
              (fulfilled_slots rt roster start end timezone w))"
proof -
  have "filter (\<lambda>s. hs_start_time s = start_time e \<and> hs_end_time s = end_time e)
          (fulfilled_slots rt roster start end timezone w)
      = filter (\<lambda>s. hs_start_time s = start_time e)
          (fulfilled_slots rt roster start end timezone w)"
  proof (rule filter_cong [OF refl])
    fix x assume x: "x \<in> set (fulfilled_slots rt roster start end timezone w)"
    have "hs_end_time x = end_time e" if h: "hs_start_time x = start_time e"
    proof -
      have "Inr (hs_end_time x) = addMinutesISO rt (Some (hs_start_time x)) 30"
        by (rule fulfilled_slots_end [OF x, symmetric])
      also have "\<dots> = addMinutesISO rt (Some (start_time e)) 30" by (simp only: h)
      also have "\<dots> = Inr (end_time e)" by (rule getUnionSlots_entry_end [OF assms])
      finally show ?thesis by (simp only: sum.inject)
    qed
    then show "(hs_start_time x = start_time e \<and> hs_end_time x = end_time e)
        = (hs_start_time x = start_time e)" by blast
  qed
  with getUnionSlots_entry(2) [OF assms] show ?thesis by (simp only:)
qed

lemma getUnionSlots_entry_hosts_raw:
  assumes "e \<in> set (getUnionSlots rt roster start end timezone w)"
  shows "hosts e =
     concat (map (\<lambda>h. case host_entries rt start end timezone w h of
                        None \<Rightarrow> []
                      | Some c \<Rightarrow>
                          map (\<lambda>s. (host_id h, display_name h))
                            (filter (\<lambda>s. av_start_time s = Some (start_time e)) c)) roster)"
proof -
  have p: "map host_ref (filter (\<lambda>s. hs_start_time s = start_time e)
               (slots_of (fst (host_task rt start end timezone h w))))
      = (case host_entries rt start end timezone w h of
           None \<Rightarrow> []
         | Some c \<Rightarrow>
             map (\<lambda>s. (host_id h, display_name h))
               (filter (\<lambda>s. av_start_time s = Some (start_time e)) c))" for h
  proof (cases "host_entries rt start end timezone w h")
    case None
    then show ?thesis by (simp add: slots_of_entries_None)
  next
    case (Some c)
    from all2_filter_refs [OF slots_of_entries_Some [OF this]] Some show ?thesis by simp
  qed
  have "hosts e = concat (map (\<lambda>h. map host_ref (filter (\<lambda>s. hs_start_time s = start_time e)
               (slots_of (fst (host_task rt start end timezone h w))))) roster)"
    by (simp add: getUnionSlots_entry_hosts_by_start [OF assms] fulfilled_slots_def
        filter_concat map_concat comp_def)
  then show ?thesis by (simp only: p)
qed

lemma getUnionSlots_holds_raw:
  assumes "h \<in> set roster" "host_entries rt start end timezone w h = Some c" "s \<in> set c"
  shows "\<exists>e\<in>set (getUnionSlots rt roster start end timezone w).
           av_start_time s = Some (start_time e)
           \<and> addMinutesISO rt (av_start_time s) 30 = Inr (end_time e)
           \<and> (host_id h, display_name h) \<in> set (hosts e)"
proof -
  from host_task_entries_Some [OF assms(2)] obtain sl where
    sl: "fst (host_task rt start end timezone h w) = Inr sl" and a: "list_all2 (slot_for rt h) c sl"
    by blast
  from all2_slot_of_entry [OF a assms(3)] obtain x where x: "x \<in> set sl" "slot_for rt h s x"
    by blast
  from assms(1) sl x(1) have "x \<in> set (fulfilled_slots rt roster start end timezone w)"
    by (auto simp: fulfilled_slots_mem)
  from getUnionSlots_holds [OF this] obtain e where
    e: "e \<in> set (getUnionSlots rt roster start end timezone w)"
    "start_time e = hs_start_time x" "end_time e = hs_end_time x" "host_ref x \<in> set (hosts e)"
    by blast
  show ?thesis
  proof (rule bexI [of _ e])
    show "av_start_time s = Some (start_time e)
           \<and> addMinutesISO rt (av_start_time s) 30 = Inr (end_time e)
           \<and> (host_id h, display_name h) \<in> set (hosts e)"
    proof (intro conjI)
      from x(2) have s1: "av_start_time s = Some (hs_start_time x)"
        and s2: "addMinutesISO rt (av_start_time s) 30 = Inr (hs_end_time x)"
        and s4: "hs_host_id x = host_id h" and s5: "hs_host_name x = display_name h"
        unfolding slot_for_def by blast+
      have s3: "host_ref x = (host_id h, display_name h)"
        by (simp only: host_ref_def s4 s5)
      show "av_start_time s = Some (start_time e)" by (simp only: s1 e(2))
      show "addMinutesISO rt (av_start_time s) 30 = Inr (end_time e)" by (simp only: s2 e(3))
      show "(host_id h, display_name h) \<in> set (hosts e)" using e(4) by (simp only: s3)
    qed
  qed (rule e(1))
qed

lemma getUnionSlots_start_raw:
  assumes "e \<in> set (getUnionSlots rt roster start end timezone w)"
  shows "\<exists>h\<in>set roster. \<exists>c. host_entries rt start end timezone w h = Some c
           \<and> (\<exists>s\<in>set c. av_start_time s = Some (start_time e))"
proof -
  from getUnionSlots_entry(3) [OF assms] obtain x where
    x: "x \<in> set (fulfilled_slots rt roster start end timezone w)"
    "start_time e = hs_start_time x" by blast
  then obtain h sl where h: "h \<in> set roster"
    and sl: "fst (host_task rt start end timezone h w) = Inr sl" "x \<in> set sl"
    by (auto simp: fulfilled_slots_mem)
  from host_task_Inr_entries [OF sl(1)] obtain c where
    c: "host_entries rt start end timezone w h = Some c" "map_slots rt h c = Inr sl" by blast
  from all2_entry_of_slot [OF map_slots_all2 [OF c(2)] sl(2)] obtain s where
    "s \<in> set c" "slot_for rt h s x" by blast
  with x(2) h c(1) show ?thesis by (auto simp: slot_for_def)
qed

lemma getUnionSlots_distinct_starts:
  "distinct (map start_time (getUnionSlots rt roster start end timezone w))"
proof -
  let ?R = "getUnionSlots rt roster start end timezone w"
  let ?f = "\<lambda>st. (st, case addMinutesISO rt (Some st) 30 of Inl e \<Rightarrow> [] | Inr en \<Rightarrow> en)"
  have "distinct (map (\<lambda>e. (start_time e, end_time e))
      (map snd (put_all (fulfilled_slots rt roster start end timezone w) [])))"
    by (rule distinct_bucket_pairs) (rule fulfilled_slots_end)
  then have d: "distinct (map (\<lambda>e. (start_time e, end_time e)) ?R)"
    by (simp only: getUnionSlots_eq distinct_map_js_sort)
  have "map (\<lambda>e. (start_time e, end_time e)) ?R = map ?f (map start_time ?R)"
    by (simp add: getUnionSlots_entry_end)
  with d have "distinct (map ?f (map start_time ?R))" by (simp only:)
  then have "distinct (map start_time ?R) \<and> inj_on ?f (set (map start_time ?R))"
    by (rule distinct_map [THEN iffD1])
  then show ?thesis by (rule conjunct1)
qed

text \<open>
  Claim C6. A host fails when its credential is missing, its event type does not resolve,
  the availability query is rejected or answered not ok, or an entry of the answer has no
  valid \<open>start_time\<close>. The result is the result for the roster without the failing
  hosts; for every other host, every entry of the collection the provider returned is in
  the result, under its \<open>start_time\<close> string and the end 30 minutes later, with the
  host listed; and every host listed in an entry is a host that did not fail and whose
  collection holds that \<open>start_time\<close>. The function returns a list of slots in every
  case: it has no error result.
\<close>

theorem getUnionSlots_isolates_failed_hosts:
  "getUnionSlots rt roster start end timezone w
     = getUnionSlots rt (filter (\<lambda>h. host_entries rt start end timezone w h \<noteq> None) roster)
         start end timezone w
   \<and> (\<forall>h\<in>set roster. \<forall>c. host_entries rt start end timezone w h = Some c \<longrightarrow>
         (\<forall>s\<in>set c. \<exists>e\<in>set (getUnionSlots rt roster start end timezone w).
            av_start_time s = Some (start_time e)
            \<and> addMinutesISO rt (av_start_time s) 30 = Inr (end_time e)
            \<and> (host_id h, display_name h) \<in> set (hosts e)))
   \<and> (\<forall>e\<in>set (getUnionSlots rt roster start end timezone w). \<forall>r\<in>set (hosts e).
         \<exists>h\<in>set roster. r = (host_id h, display_name h)
           \<and> (\<exists>c. host_entries rt start end timezone w h = Some c
                  \<and> (\<exists>s\<in>set c. av_start_time s = Some (start_time e))))"
proof (intro conjI ballI allI impI)
  have "filter (\<lambda>h. host_entries rt start end timezone w h \<noteq> None) roster
      = filter (fulfilled rt start end timezone w) roster"
    by (rule filter_cong [OF refl]) (simp add: fulfilled_iff_entries)
  then show "getUnionSlots rt roster start end timezone w
     = getUnionSlots rt (filter (\<lambda>h. host_entries rt start end timezone w h \<noteq> None) roster)
         start end timezone w"
    by (simp only: getUnionSlots_eq fulfilled_slots_filter)
next
  fix h c s
  assume "h \<in> set roster" "host_entries rt start end timezone w h = Some c" "s \<in> set c"
  then show "\<exists>e\<in>set (getUnionSlots rt roster start end timezone w).
            av_start_time s = Some (start_time e)
            \<and> addMinutesISO rt (av_start_time s) 30 = Inr (end_time e)
            \<and> (host_id h, display_name h) \<in> set (hosts e)"
    by (rule getUnionSlots_holds_raw)
next
  fix e r
  assume e: "e \<in> set (getUnionSlots rt roster start end timezone w)" and r: "r \<in> set (hosts e)"
  from r obtain h where h: "h \<in> set roster"
    and rh: "r \<in> set (case host_entries rt start end timezone w h of
                       None \<Rightarrow> []
                     | Some c \<Rightarrow>
                         map (\<lambda>s. (host_id h, display_name h))
                           (filter (\<lambda>s. av_start_time s = Some (start_time e)) c))"
    unfolding getUnionSlots_entry_hosts_raw [OF e] by auto
  then obtain c where c: "host_entries rt start end timezone w h = Some c"
    by (cases "host_entries rt start end timezone w h") auto
  with rh have "r = (host_id h, display_name h)"
    "\<exists>s\<in>set c. av_start_time s = Some (start_time e)"
    by auto
  with h c show "\<exists>h\<in>set roster. r = (host_id h, display_name h)
           \<and> (\<exists>c. host_entries rt start end timezone w h = Some c
                  \<and> (\<exists>s\<in>set c. av_start_time s = Some (start_time e)))"
    by blast
qed

theorem getUnionSlots_isolates_failed_hosts_witness:
  "host_entries (demo_rt agg_times 201 demo_link) day_start day_end (Some ''Asia/Kolkata'') fresh
     carol = None
   \<and> host_entries (demo_rt agg_times 201 demo_link) day_start day_end (Some ''Asia/Kolkata'') fresh
       dave = None
   \<and> host_entries (demo_rt agg_times 201 demo_link) day_start day_end (Some ''Asia/Kolkata'') fresh
       erin = None
   \<and> getUnionSlots (demo_rt agg_times 201 demo_link) [alice, carol, dave, erin, bob] day_start
       day_end (Some ''Asia/Kolkata'') fresh
     = getUnionSlots (demo_rt agg_times 201 demo_link) [alice, bob] day_start day_end
         (Some ''Asia/Kolkata'') fresh
   \<and> getUnionSlots (demo_rt agg_times 201 demo_link) [alice, carol, dave, erin, bob] day_start
       day_end (Some ''Asia/Kolkata'') fresh
     = [\<lparr>start_time = ''2025-11-07T09:00:00Z'', end_time = ''2025-11-07T09:30:00.000Z'',
         hosts = [(''a'', ''Alice'')]\<rparr>,
        \<lparr>start_time = ''2025-11-07T10:00:00Z'', end_time = ''2025-11-07T10:30:00.000Z'',
         hosts = [(''a'', ''Alice''), (''b'', ''Bob'')]\<rparr>]
   \<and> (\<exists>e\<in>set (getUnionSlots (demo_rt agg_times 201 demo_link) [alice, carol, dave, erin, bob]
                  day_start day_end (Some ''Asia/Kolkata'') fresh).
         start_time e = ''2025-11-07T10:00:00Z'' \<and> end_time e = ''2025-11-07T10:30:00.000Z''
         \<and> (''b'', ''Bob'') \<in> set (hosts e))"
proof -
  let ?rt = "demo_rt agg_times 201 demo_link"
  let ?roster = "[alice, carol, dave, erin, bob]"
  let ?tz = "Some ''Asia/Kolkata''"
  have n: "host_entries ?rt day_start day_end ?tz fresh carol = None"
    "host_entries ?rt day_start day_end ?tz fresh dave = None"
    "host_entries ?rt day_start day_end ?tz fresh erin = None"
    by code_simp+
  have f: "filter (\<lambda>h. host_entries ?rt day_start day_end ?tz fresh h \<noteq> None) ?roster
      = [alice, bob]"
    by code_simp
  have b: "host_entries ?rt day_start day_end ?tz fresh bob
      = Some [AvailableTime (Some ''2025-11-07T10:00:00Z'') None]"
    by code_simp
  have r: "getUnionSlots ?rt ?roster day_start day_end ?tz fresh
     = [\<lparr>start_time = ''2025-11-07T09:00:00Z'', end_time = ''2025-11-07T09:30:00.000Z'',
         hosts = [(''a'', ''Alice'')]\<rparr>,
        \<lparr>start_time = ''2025-11-07T10:00:00Z'', end_time = ''2025-11-07T10:30:00.000Z'',
         hosts = [(''a'', ''Alice''), (''b'', ''Bob'')]\<rparr>]"
    by code_simp
  have a: "addMinutesISO ?rt (Some ''2025-11-07T10:00:00Z'') 30 = Inr ''2025-11-07T10:30:00.000Z''"
    by code_simp
  have i: "host_id bob = ''b''" "display_name bob = ''Bob''" by (simp_all add: bob_def)
  note t = getUnionSlots_isolates_failed_hosts [of ?rt ?roster day_start day_end ?tz fresh]
  from t [THEN conjunct1] have 1: "getUnionSlots ?rt ?roster day_start day_end ?tz fresh
      = getUnionSlots ?rt [alice, bob] day_start day_end ?tz fresh"
    by (simp only: f)
  have m: "bob \<in> set ?roster" by simp
  have s: "AvailableTime (Some ''2025-11-07T10:00:00Z'') None
      \<in> set [AvailableTime (Some ''2025-11-07T10:00:00Z'') None]" by simp
  from t [THEN conjunct2, THEN conjunct1, THEN bspec, OF m, THEN spec, THEN mp, OF b,
      THEN bspec, OF s]
  obtain e where e: "e \<in> set (getUnionSlots ?rt ?roster day_start day_end ?tz fresh)"
    and e1: "av_start_time (AvailableTime (Some ''2025-11-07T10:00:00Z'') None)
        = Some (start_time e)"
    and e2: "addMinutesISO ?rt (av_start_time (AvailableTime (Some ''2025-11-07T10:00:00Z'') None))
        30 = Inr (end_time e)"
    and e3: "(host_id bob, display_name bob) \<in> set (hosts e)"
    by blast
  from e1 have "start_time e = ''2025-11-07T10:00:00Z''" by simp
  moreover from e2 a have "end_time e = ''2025-11-07T10:30:00.000Z''" by simp
  moreover from e3 have "(''b'', ''Bob'') \<in> set (hosts e)" by (simp only: i)
  ultimately have 2: "\<exists>e\<in>set (getUnionSlots ?rt ?roster day_start day_end ?tz fresh).
         start_time e = ''2025-11-07T10:00:00Z'' \<and> end_time e = ''2025-11-07T10:30:00.000Z''
         \<and> (''b'', ''Bob'') \<in> set (hosts e)"
    using e by blast
  from n 1 r 2 show ?thesis by (intro conjI)
qed

text \<open>
  Against claim C8 as stated: the sort compares the \<open>start_time\<close> strings as the
  provider wrote them. A host whose answer holds \<open>2025-11-07T10:00:00+05:30\<close> (04:30 UTC)
  and \<open>2025-11-07T06:00:00Z\<close> gets the later instant first.
\<close>

theorem getUnionSlots_not_sorted_by_instant:
  "map (start_instant (demo_rt offset_times 201 demo_link))
     (getUnionSlots (demo_rt offset_times 201 demo_link) [bob] day_start day_end
        (Some ''Asia/Kolkata'') fresh)
   = [Some 1762495200000, Some 1762489800000]
   \<and> \<not> sorted_wrt date_le
        (map (start_instant (demo_rt offset_times 201 demo_link))
           (getUnionSlots (demo_rt offset_times 201 demo_link) [bob] day_start day_end
              (Some ''Asia/Kolkata'') fresh))"
proof -
  have "map (start_instant (demo_rt offset_times 201 demo_link))
     (getUnionSlots (demo_rt offset_times 201 demo_link) [bob] day_start day_end
        (Some ''Asia/Kolkata'') fresh)
   = [Some 1762495200000, Some 1762489800000]"
    by code_simp
  then show ?thesis by (simp add: date_le_def)
qed

text \<open>
  Claim C8, amended. With a consistent \<open>localeCompare\<close> (any two strings are comparable,
  and the order is transitive) the result is non-decreasing in the \<open>start_time\<close> strings
  under \<open>localeCompare\<close>; it is non-decreasing by start instant whenever, on the entries
  of the result, that string order implies the order of the instants.
\<close>

theorem getUnionSlots_sorted_by_start_string:
  assumes "\<And>a b. \<not> localeCompare rt a b \<le> 0 \<Longrightarrow> localeCompare rt b a \<le> 0"
    and "\<And>a b c. localeCompare rt a b \<le> 0 \<Longrightarrow> localeCompare rt b c \<le> 0
           \<Longrightarrow> localeCompare rt a c \<le> 0"
  shows "sorted_wrt (\<lambda>a b. localeCompare rt (start_time a) (start_time b) \<le> 0)
           (getUnionSlots rt roster start end timezone w)
       \<and> ((\<forall>a\<in>set (getUnionSlots rt roster start end timezone w).
             \<forall>b\<in>set (getUnionSlots rt roster start end timezone w).
               localeCompare rt (start_time a) (start_time b) \<le> 0
                 \<longrightarrow> date_le (start_instant rt a) (start_instant rt b))
           \<longrightarrow> sorted_wrt (\<lambda>a b. date_le (start_instant rt a) (start_instant rt b))
                 (getUnionSlots rt roster start end timezone w))"
proof -
  have s: "sorted_wrt (\<lambda>a b. localeCompare rt (start_time a) (start_time b) \<le> 0)
           (getUnionSlots rt roster start end timezone w)"
    unfolding getUnionSlots_eq
    by (rule sorted_js_sort) (blast intro: assms)+
  show ?thesis
  proof (intro conjI impI)
    show "sorted_wrt (\<lambda>a b. localeCompare rt (start_time a) (start_time b) \<le> 0)
           (getUnionSlots rt roster start end timezone w)" by (rule s)
  next
    assume "\<forall>a\<in>set (getUnionSlots rt roster start end timezone w).
             \<forall>b\<in>set (getUnionSlots rt roster start end timezone w).
               localeCompare rt (start_time a) (start_time b) \<le> 0
                 \<longrightarrow> date_le (start_instant rt a) (start_instant rt b)"
    then show "sorted_wrt (\<lambda>a b. date_le (start_instant rt a) (start_instant rt b))
                 (getUnionSlots rt roster start end timezone w)"
      using s by (auto intro: sorted_wrt_mono_rel [rotated])
  qed
qed

theorem getUnionSlots_sorted_by_start_string_witness:
  "sorted_wrt (\<lambda>a b. code_unit_compare (start_time a) (start_time b) \<le> 0)
     (getUnionSlots (demo_rt agg_times 201 demo_link) [alice, bob, carol, dave] day_start day_end
        (Some ''Asia/Kolkata'') fresh)
   \<and> map start_time
       (getUnionSlots (demo_rt agg_times 201 demo_link) [alice, bob, carol, dave] day_start day_end
          (Some ''Asia/Kolkata'') fresh)
     = [''2025-11-07T09:00:00Z'', ''2025-11-07T10:00:00Z'']"
proof -
  have m: "map start_time
       (getUnionSlots (demo_rt agg_times 201 demo_link) [alice, bob, carol, dave] day_start day_end
          (Some ''Asia/Kolkata'') fresh)
     = [''2025-11-07T09:00:00Z'', ''2025-11-07T10:00:00Z'']"
    by code_simp
  from getUnionSlots_sorted_by_start_string [of "demo_rt agg_times 201 demo_link"
      "[alice, bob, carol, dave]" day_start day_end "Some ''Asia/Kolkata''" fresh]
  have "sorted_wrt (\<lambda>a b. code_unit_compare (start_time a) (start_time b) \<le> 0)
     (getUnionSlots (demo_rt agg_times 201 demo_link) [alice, bob, carol, dave] day_start day_end
        (Some ''Asia/Kolkata'') fresh)"
    unfolding demo_localeCompare
    using code_unit_compare_total code_unit_compare_trans by blast
  with m show ?thesis by blast
qed

text \<open>
  Claim C10. The result has one entry for each distinct \<open>start_time\<close> string of the
  collections the provider returned to the hosts that did not fail: the string is kept
  as it is, the \<open>end_time\<close> is the canonical rendering of start plus 30 minutes, and
  the \<open>hosts\<close> of the entry are, in roster order, one \<open>{ id, name }\<close> for each entry
  of a host's collection whose \<open>start_time\<close> is that string character for character.
  With a consistent \<open>localeCompare\<close> the \<open>start_time\<close> strings of the result are
  non-decreasing under it. So two spellings of one instant give two entries, ordered as
  strings.
\<close>

theorem merge_identifies_slots_by_raw_start:
  "distinct (map start_time (getUnionSlots rt roster start end timezone w))
   \<and> (\<forall>h\<in>set roster. \<forall>c. host_entries rt start end timezone w h = Some c \<longrightarrow>
         (\<forall>s\<in>set c. \<exists>e\<in>set (getUnionSlots rt roster start end timezone w).
            av_start_time s = Some (start_time e)))
   \<and> (\<forall>e\<in>set (getUnionSlots rt roster start end timezone w).
         addMinutesISO rt (Some (start_time e)) 30 = Inr (end_time e)
         \<and> hosts e \<noteq> []
         \<and> hosts e =
             concat (map (\<lambda>h. case host_entries rt start end timezone w h of
                                None \<Rightarrow> []
                              | Some c \<Rightarrow>
                                  map (\<lambda>s. (host_id h, display_name h))
                                    (filter (\<lambda>s. av_start_time s = Some (start_time e)) c))
                       roster))
   \<and> ((\<forall>a b. \<not> localeCompare rt a b \<le> 0 \<longrightarrow> localeCompare rt b a \<le> 0)
        \<and> (\<forall>a b c. localeCompare rt a b \<le> 0 \<and> localeCompare rt b c \<le> 0
              \<longrightarrow> localeCompare rt a c \<le> 0)
       \<longrightarrow> sorted_wrt (\<lambda>a b. localeCompare rt a b \<le> 0)
             (map start_time (getUnionSlots rt roster start end timezone w)))"
proof (intro conjI ballI allI impI)
  show "distinct (map start_time (getUnionSlots rt roster start end timezone w))"
    by (rule getUnionSlots_distinct_starts)
next
  fix h c s
  assume "h \<in> set roster" "host_entries rt start end timezone w h = Some c" "s \<in> set c"
  from getUnionSlots_holds_raw [OF this]
  show "\<exists>e\<in>set (getUnionSlots rt roster start end timezone w).
          av_start_time s = Some (start_time e)"
    by blast
next
  fix e assume e: "e \<in> set (getUnionSlots rt roster start end timezone w)"
  show "addMinutesISO rt (Some (start_time e)) 30 = Inr (end_time e)"
    by (rule getUnionSlots_entry_end [OF e])
  show "hosts e \<noteq> []" by (rule getUnionSlots_entry(1) [OF e])
  show "hosts e =
     concat (map (\<lambda>h. case host_entries rt start end timezone w h of
                        None \<Rightarrow> []
                      | Some c \<Rightarrow>
                          map (\<lambda>s. (host_id h, display_name h))
                            (filter (\<lambda>s. av_start_time s = Some (start_time e)) c)) roster)"
    by (rule getUnionSlots_entry_hosts_raw [OF e])
next
  assume c: "(\<forall>a b. \<not> localeCompare rt a b \<le> 0 \<longrightarrow> localeCompare rt b a \<le> 0)
        \<and> (\<forall>a b c. localeCompare rt a b \<le> 0 \<and> localeCompare rt b c \<le> 0
              \<longrightarrow> localeCompare rt a c \<le> 0)"
  have "sorted_wrt (\<lambda>a b. localeCompare rt (start_time a) (start_time b) \<le> 0)
           (getUnionSlots rt roster start end timezone w)"
    unfolding getUnionSlots_eq
    by (rule sorted_js_sort) (use c in blast)+
  then show "sorted_wrt (\<lambda>a b. localeCompare rt a b \<le> 0)
             (map start_time (getUnionSlots rt roster start end timezone w))"
    by (simp add: sorted_wrt_map)
qed

theorem merge_identifies_slots_by_raw_start_witness:
  "getUnionSlots (demo_rt spelling_times 201 demo_link) [alice, bob, carol] day_start day_end
     (Some ''Asia/Kolkata'') fresh
   = [\<lparr>start_time = ''2025-11-07T10:00:00Z'', end_time = ''2025-11-07T10:30:00.000Z'',
       hosts = [(''b'', ''Bob''), (''c'', ''Carol'')]\<rparr>,
      \<lparr>start_time = ''2025-11-07T15:30:00+05:30'', end_time = ''2025-11-07T10:30:00.000Z'',
       hosts = [(''a'', ''Alice'')]\<rparr>]
   \<and> iso_parse ''2025-11-07T15:30:00+05:30'' = iso_parse ''2025-11-07T10:00:00Z''
   \<and> distinct (map start_time
        (getUnionSlots (demo_rt spelling_times 201 demo_link) [alice, bob, carol] day_start day_end
           (Some ''Asia/Kolkata'') fresh))
   \<and> sorted_wrt (\<lambda>a b. code_unit_compare a b \<le> 0)
        (map start_time
           (getUnionSlots (demo_rt spelling_times 201 demo_link) [alice, bob, carol] day_start
              day_end (Some ''Asia/Kolkata'') fresh))
   \<and> concat (map (\<lambda>h. case host_entries (demo_rt spelling_times 201 demo_link) day_start day_end
                            (Some ''Asia/Kolkata'') fresh h of
                       None \<Rightarrow> []
                     | Some c \<Rightarrow>
                         map (\<lambda>s. (host_id h, display_name h))
                           (filter (\<lambda>s. av_start_time s = Some ''2025-11-07T10:00:00Z'') c))
               [alice, bob, carol])
     = [(''b'', ''Bob''), (''c'', ''Carol'')]"
proof -
  let ?rt = "demo_rt spelling_times 201 demo_link"
  let ?R = "getUnionSlots ?rt [alice, bob, carol] day_start day_end (Some ''Asia/Kolkata'') fresh"
  let ?e = "\<lparr>start_time = ''2025-11-07T10:00:00Z'', end_time = ''2025-11-07T10:30:00.000Z'',
       hosts = [(''b'', ''Bob''), (''c'', ''Carol'')]\<rparr>"
  have r: "?R = [?e,
      \<lparr>start_time = ''2025-11-07T15:30:00+05:30'', end_time = ''2025-11-07T10:30:00.000Z'',
       hosts = [(''a'', ''Alice'')]\<rparr>]"
    by code_simp
  then have m: "?e \<in> set ?R" by simp
  have p: "iso_parse ''2025-11-07T15:30:00+05:30'' = iso_parse ''2025-11-07T10:00:00Z''"
    by code_simp
  note t = merge_identifies_slots_by_raw_start [of ?rt "[alice, bob, carol]" day_start day_end
      "Some ''Asia/Kolkata''" fresh]
  from t [THEN conjunct1] have d: "distinct (map start_time ?R)" .
  have c: "(\<forall>a b. \<not> localeCompare ?rt a b \<le> 0 \<longrightarrow> localeCompare ?rt b a \<le> 0)
        \<and> (\<forall>a b c. localeCompare ?rt a b \<le> 0 \<and> localeCompare ?rt b c \<le> 0
              \<longrightarrow> localeCompare ?rt a c \<le> 0)"
    unfolding demo_localeCompare
    using code_unit_compare_total code_unit_compare_trans by blast
  from t [THEN conjunct2, THEN conjunct2, THEN conjunct2, THEN mp, OF c]
  have "sorted_wrt (\<lambda>a b. localeCompare ?rt a b \<le> 0) (map start_time ?R)" .
  then have s: "sorted_wrt (\<lambda>a b. code_unit_compare a b \<le> 0) (map start_time ?R)"
    by (simp only: demo_localeCompare)
  from t [THEN conjunct2, THEN conjunct2, THEN conjunct1, THEN bspec, OF m]
  have "hosts ?e =
      concat (map (\<lambda>h. case host_entries ?rt day_start day_end (Some ''Asia/Kolkata'') fresh h of
                       None \<Rightarrow> []
                     | Some c \<Rightarrow>
                         map (\<lambda>s. (host_id h, display_name h))
                           (filter (\<lambda>s. av_start_time s = Some (start_time ?e)) c))
               [alice, bob, carol])"
    by (rule conjunct2 [THEN conjunct2])
  then have h: "concat (map (\<lambda>h. case host_entries ?rt day_start day_end (Some ''Asia/Kolkata'')
                            fresh h of
                       None \<Rightarrow> []
                     | Some c \<Rightarrow>
                         map (\<lambda>s. (host_id h, display_name h))
                           (filter (\<lambda>s. av_start_time s = Some ''2025-11-07T10:00:00Z'') c))
               [alice, bob, carol])
     = [(''b'', ''Bob''), (''c'', ''Carol'')]"
    by (simp cong: option.case_cong)
  from r p d s h show ?thesis by (intro conjI)
qed

end
